theory Spec2Isabelle
  imports Complex_Main
begin

section \<open>The snake game engine of script.js\<close>

text \<open>
  A shallow embedding of the single-player and player-versus-AI engine of
  \<^verbatim>\<open>script.js\<close>: the grid helpers, the food spawner, the step function, the
  food and collision resolvers, the AI with its breadth-first search, and the
  event handlers that drive them. The global variables of the script are the
  fields of one record, passed through every function. Canvas drawing and the
  DOM are left out, as is the multiplayer client, whose state comes from a
  server.

  JavaScript numbers that hold grid coordinates, scores and tick lengths are
  integers far below \<open>2^53\<close> and are modelled as \<open>int\<close>. The two quantities
  computed in floating point (\<open>speedMultiplier\<close> and \<open>gameTime\<close>) are modelled
  as exact reals.
\<close>

subsection \<open>Configuration\<close>

definition GRID :: int where "GRID = 30"
definition BASE_TICK :: int where "BASE_TICK = 150"
definition MIN_TICK :: int where "MIN_TICK = 60"
definition SCORE_PER_FOOD :: int where "SCORE_PER_FOOD = 1"

subsection \<open>Data\<close>

type_synonym cell = "int \<times> int"

datatype direction = Up | Down | Left | Right

datatype difficulty = Easy | NormalAI | Hard

datatype gameMode = Single | AIMode

datatype ftype = Normal | Special

datatype subtype = Bonus | Slow | Poison | Invisible

text \<open>A food object \<^verbatim>\<open>{x, y, type, spawnedAt, subtype?}\<close>.\<close>

record food =
  fx :: int
  fy :: int
  ftype :: ftype
  spawnedAt :: int
  subtype :: "subtype option"

text \<open>
  A snake object as \<^verbatim>\<open>makeSnake\<close> builds it; the AI snake gets its
  \<^verbatim>\<open>difficulty\<close> attached afterwards.
\<close>

record snake =
  body :: "cell list"
  dir :: direction
  color :: string
  alive :: bool
  pendingGrow :: int
  speedMultiplier :: real
  difficulty :: "difficulty option"

text \<open>The text \<^verbatim>\<open>showGameOver\<close> puts on the game-over panel, with the score in it.\<close>

datatype notice = GameOverMsg int | YouDiedMsg int | AIDiedMsg int | BothDiedMsg int

text \<open>
  The script's global variables. \<open>gameOverPanel\<close> is the visible game-over
  panel (\<open>None\<close> when hidden); \<open>specialTimer\<close> says whether the ten-second
  interval of \<^verbatim>\<open>initGame\<close> is armed; \<open>slowTimeouts\<close> counts the pending
  \<^verbatim>\<open>setTimeout\<close> callbacks of the slow effect; \<open>randomCalls\<close> counts the calls of
  \<^verbatim>\<open>Math.random\<close> made so far; \<open>dateNow\<close> is what \<^verbatim>\<open>Date.now()\<close> returns.
  The interval handle \<^verbatim>\<open>tickTimer\<close> is set exactly when \<open>running\<close> is true.
\<close>

record game =
  mode :: "gameMode option"
  running :: bool
  tickInterval :: int
  score :: int
  playerDir :: direction
  invisibleTailTicks :: int
  speedBoost :: int
  playerSnake :: "snake option"
  aiSnake :: "snake option"
  foods :: "food list"
  gameTime :: real
  aiDifficulty :: difficulty
  gameOverPanel :: "notice option"
  specialTimer :: bool
  slowTimeouts :: nat
  randomCalls :: nat
  dateNow :: int

datatype who = Player | AI

datatype which = PlayerDied | AIDied | BothDied

text \<open>
  A handler either runs to its end or stops at an uncaught \<^verbatim>\<open>TypeError\<close> (a
  property read on \<^verbatim>\<open>undefined\<close> or \<^verbatim>\<open>null\<close>); the state is then the one
  reached at the throw.
\<close>

datatype outcome = Done game | TypeError game

fun final :: "outcome \<Rightarrow> game" where
  "final (Done st) = st"
| "final (TypeError st) = st"

definition andThen :: "outcome \<Rightarrow> (game \<Rightarrow> outcome) \<Rightarrow> outcome" where
  "andThen r f = (case r of Done st \<Rightarrow> f st | TypeError st \<Rightarrow> TypeError st)"

subsection \<open>Utility helpers\<close>

text \<open>
  \<^verbatim>\<open>Math.random()\<close>: the \<open>k\<close>-th call returns the fractional part of \<open>rnd k\<close>,
  a number in \<open>[0, 1)\<close>, for an arbitrary sequence \<open>rnd\<close>.
\<close>

definition mathRandom :: "(nat \<Rightarrow> real) \<Rightarrow> game \<Rightarrow> real \<times> game" where
  "mathRandom rnd st =
     (frac (rnd (randomCalls st)), st\<lparr>randomCalls := Suc (randomCalls st)\<rparr>)"

text \<open>\<^verbatim>\<open>Math.floor(Math.random()*n)\<close>.\<close>

definition randomBelow :: "(nat \<Rightarrow> real) \<Rightarrow> int \<Rightarrow> game \<Rightarrow> int \<times> game" where
  "randomBelow rnd n st =
     (case mathRandom rnd st of (r, st') \<Rightarrow> (\<lfloor>r * of_int n\<rfloor>, st'))"

definition randCell :: "(nat \<Rightarrow> real) \<Rightarrow> game \<Rightarrow> cell \<times> game" where
  "randCell rnd st =
     (case randomBelow rnd GRID st of (x, st1) \<Rightarrow>
      case randomBelow rnd GRID st1 of (y, st2) \<Rightarrow> ((x, y), st2))"

definition eq :: "cell \<Rightarrow> cell \<Rightarrow> bool" where
  "eq a b \<longleftrightarrow> fst a = fst b \<and> snd a = snd b"

definition insideGrid :: "cell \<Rightarrow> bool" where
  "insideGrid p \<longleftrightarrow> fst p \<ge> 0 \<and> fst p < GRID \<and> snd p \<ge> 0 \<and> snd p < GRID"

text \<open>The cell of a food object, as \<^verbatim>\<open>eq(f, ...)\<close> reads it.\<close>

definition foodCell :: "food \<Rightarrow> cell" where
  "foodCell f = (fx f, fy f)"

text \<open>\<^verbatim>\<open>snake.body[0]\<close>, which is \<^verbatim>\<open>undefined\<close> (\<open>None\<close>) for an empty body.\<close>

definition headOf :: "snake \<Rightarrow> cell option" where
  "headOf s = (case body s of [] \<Rightarrow> None | h # _ \<Rightarrow> Some h)"

subsection \<open>Game entities\<close>

definition makeSnake :: "cell list \<Rightarrow> string \<Rightarrow> snake" where
  "makeSnake initialCells c =
     \<lparr>body = initialCells, dir = Right, color = c, alive = True,
      pendingGrow = 0, speedMultiplier = 1, difficulty = None\<rparr>"

definition bodyHits :: "snake option \<Rightarrow> cell \<Rightarrow> bool" where
  "bodyHits so pos = (case so of None \<Rightarrow> False | Some s \<Rightarrow> list_ex (\<lambda>seg. eq seg pos) (body s))"

definition collisionAt :: "game \<Rightarrow> cell \<Rightarrow> bool" where
  "collisionAt st pos = (if bodyHits (playerSnake st) pos then True
                         else if bodyHits (aiSnake st) pos then True else False)"

definition randomSpecialSubtype :: "(nat \<Rightarrow> real) \<Rightarrow> game \<Rightarrow> subtype \<times> game" where
  "randomSpecialSubtype rnd st =
     (case randomBelow rnd 4 st of (i, st') \<Rightarrow>
        ((if i = 0 then Bonus else if i = 1 then Slow else if i = 2 then Poison else Invisible), st'))"

text \<open>
  The loop of \<^verbatim>\<open>placeFood\<close>, from attempt number \<open>attempt\<close> on. The result is the
  food pushed (\<open>None\<close> for \<^verbatim>\<open>null\<close>) and the state.
\<close>

function placeFoodFrom :: "(nat \<Rightarrow> real) \<Rightarrow> ftype \<Rightarrow> nat \<Rightarrow> game \<Rightarrow> food option \<times> game" where
  "placeFoodFrom rnd ty attempt st =
     (if attempt < 200 then
        (case randCell rnd st of (pos, st1) \<Rightarrow>
           if collisionAt st1 pos then placeFoodFrom rnd ty (attempt + 1) st1
           else
             (let f0 = \<lparr>fx = fst pos, fy = snd pos, ftype = ty,
                        spawnedAt = dateNow st1, subtype = None\<rparr>
              in case (if ty = Special
                       then (case randomSpecialSubtype rnd st1 of (sub, st2) \<Rightarrow>
                               (f0\<lparr>subtype := Some sub\<rparr>, st2))
                       else (f0, st1)) of
                   (f, st3) \<Rightarrow> (Some f, st3\<lparr>foods := foods st3 @ [f]\<rparr>)))
      else (None, st))"
  by pat_completeness auto
termination
  by (relation "measure (\<lambda>(rnd, ty, attempt, st). 200 - attempt)") auto

declare placeFoodFrom.simps [simp del]

definition placeFood :: "(nat \<Rightarrow> real) \<Rightarrow> ftype \<Rightarrow> game \<Rightarrow> food option \<times> game" where
  "placeFood rnd ty st = placeFoodFrom rnd ty 0 st"

subsection \<open>Tick timer and game over\<close>

definition startTick :: "game \<Rightarrow> game" where
  "startTick st = st\<lparr>running := True\<rparr>"

definition stopTick :: "game \<Rightarrow> game" where
  "stopTick st = st\<lparr>running := False\<rparr>"

definition showGameOver :: "notice \<Rightarrow> game \<Rightarrow> game" where
  "showGameOver msg st = st\<lparr>gameOverPanel := Some msg\<rparr>"

definition onPlayerDie :: "which \<Rightarrow> game \<Rightarrow> game" where
  "onPlayerDie w st =
     stopTick
       (case mode st of
          Some Single \<Rightarrow> showGameOver (GameOverMsg (score st)) st
        | Some AIMode \<Rightarrow>
            (if w = PlayerDied then showGameOver (YouDiedMsg (score st)) st
             else if w = AIDied then showGameOver (AIDiedMsg (score st)) st
             else showGameOver (BothDiedMsg (score st)) st)
        | None \<Rightarrow> st)"

definition setSpeedFromScore :: "game \<Rightarrow> game" where
  "setSpeedFromScore st =
     (let newTick = max MIN_TICK (BASE_TICK - (score st div 5) * 10 - speedBoost st)
      in if newTick \<noteq> tickInterval st
         then (let st1 = st\<lparr>tickInterval := newTick\<rparr>
               in if running st1 then startTick st1 else st1)
         else st)"

subsection \<open>Single-player step\<close>

definition snakeOf :: "who \<Rightarrow> game \<Rightarrow> snake option" where
  "snakeOf w st = (case w of Player \<Rightarrow> playerSnake st | AI \<Rightarrow> aiSnake st)"

definition setSnake :: "who \<Rightarrow> snake \<Rightarrow> game \<Rightarrow> game" where
  "setSnake w s st = (case w of Player \<Rightarrow> st\<lparr>playerSnake := Some s\<rparr>
                              | AI \<Rightarrow> st\<lparr>aiSnake := Some s\<rparr>)"

definition diedOf :: "who \<Rightarrow> which" where
  "diedOf w = (case w of Player \<Rightarrow> PlayerDied | AI \<Rightarrow> AIDied)"

definition offset :: "direction \<Rightarrow> cell \<Rightarrow> cell" where
  "offset d h = (case d of Up \<Rightarrow> (fst h, snd h - 1) | Down \<Rightarrow> (fst h, snd h + 1)
                         | Left \<Rightarrow> (fst h - 1, snd h) | Right \<Rightarrow> (fst h + 1, snd h))"

text \<open>\<^verbatim>\<open>snake.alive = false; onPlayerDie(...)\<close> for the snake \<open>w\<close>.\<close>

definition dies :: "who \<Rightarrow> game \<Rightarrow> game" where
  "dies w st = (case snakeOf w st of None \<Rightarrow> st
                | Some s \<Rightarrow> onPlayerDie (diedOf w) (setSnake w (s\<lparr>alive := False\<rparr>) st))"

text \<open>
  \<^verbatim>\<open>stepSnake(snake, dir)\<close>, called with \<^verbatim>\<open>playerSnake\<close> or \<^verbatim>\<open>aiSnake\<close>. For an
  empty body the copied head is \<^verbatim>\<open>{}\<close>, its coordinates are \<^verbatim>\<open>undefined\<close> or
  \<^verbatim>\<open>NaN\<close>, and \<^verbatim>\<open>insideGrid\<close> is false.
\<close>

definition stepSnake :: "who \<Rightarrow> direction \<Rightarrow> game \<Rightarrow> game" where
  "stepSnake w d st =
     (case snakeOf w st of None \<Rightarrow> st
      | Some s \<Rightarrow>
          if \<not> alive s then st
          else (case body s of
                  [] \<Rightarrow> dies w st
                | h # _ \<Rightarrow>
                    (let head = offset d h in
                     if \<not> insideGrid head then dies w st
                     else if pendingGrow s > 0
                          then setSnake w (s\<lparr>body := head # body s,
                                             pendingGrow := pendingGrow s - 1\<rparr>) st
                          else setSnake w (s\<lparr>body := butlast (head # body s)\<rparr>) st)))"

subsection \<open>Food consumption\<close>

definition updSnake :: "who \<Rightarrow> (snake \<Rightarrow> snake) \<Rightarrow> game \<Rightarrow> game" where
  "updSnake w f st = (case snakeOf w st of None \<Rightarrow> st | Some s \<Rightarrow> setSnake w (f s) st)"

text \<open>
  \<^verbatim>\<open>consumeFood(snake, food, eater)\<close>. Its two call sites pass
  \<^verbatim>\<open>(playerSnake, f, 'player')\<close> and \<^verbatim>\<open>(aiSnake, f, 'ai')\<close>, so the snake is
  selected by the eater; at both the snake is not \<^verbatim>\<open>null\<close>. The two
  \<^verbatim>\<open>pop()\<close> calls of the poison case are \<open>butlast\<close>, which like \<^verbatim>\<open>pop()\<close>
  leaves an empty list empty. \<^verbatim>\<open>Math.floor(5000 / tickInterval)\<close> is integer
  division; \<open>tickInterval\<close> is never 0.
\<close>

definition consumeFood :: "(nat \<Rightarrow> real) \<Rightarrow> who \<Rightarrow> food \<Rightarrow> game \<Rightarrow> game" where
  "consumeFood rnd eater fd st =
     (if ftype fd = Normal then
        (let st1 = updSnake eater (\<lambda>s. s\<lparr>pendingGrow := pendingGrow s + 1\<rparr>) st;
             st2 = (if eater = Player then st1\<lparr>score := score st1 + SCORE_PER_FOOD\<rparr> else st1);
             st3 = updSnake eater (\<lambda>s. s\<lparr>speedMultiplier := speedMultiplier s * 1.03\<rparr>) st2;
             st4 = st3\<lparr>speedBoost := max 0 (speedBoost st3 - 2)\<rparr>
         in snd (placeFood rnd Normal st4))
      else
        (case subtype fd of
           Some Bonus \<Rightarrow>
             (let st1 = (if eater = Player then st\<lparr>score := score st + 5\<rparr> else st)
              in updSnake eater (\<lambda>s. s\<lparr>pendingGrow := pendingGrow s + 2\<rparr>) st1)
         | Some Slow \<Rightarrow>
             st\<lparr>tickInterval := min 400 (tickInterval st + 120),
                slowTimeouts := Suc (slowTimeouts st)\<rparr>
         | Some Poison \<Rightarrow>
             (let st1 = (if eater = Player then st\<lparr>score := max 0 (score st - 2)\<rparr> else st)
              in updSnake eater (\<lambda>s. s\<lparr>body := butlast (butlast (body s))\<rparr>) st1)
         | Some Invisible \<Rightarrow>
             (if eater = Player then st\<lparr>invisibleTailTicks := 5000 div tickInterval st\<rparr> else st)
         | None \<Rightarrow> st))"

text \<open>\<^verbatim>\<open>foods.splice(i,1)\<close>.\<close>

definition spliceFood :: "nat \<Rightarrow> game \<Rightarrow> game" where
  "spliceFood i st = st\<lparr>foods := take i (foods st) @ drop (Suc i) (foods st)\<rparr>"

text \<open>
  The loop of \<^verbatim>\<open>handleFoodCollisions\<close>: \<open>foodScan rnd (Suc i) st\<close> runs the
  iteration at index \<open>i\<close> and goes on downwards. \<^verbatim>\<open>eq(f, snake.body[0])\<close> throws
  when the food or the head is \<^verbatim>\<open>undefined\<close>.
\<close>

fun foodScan :: "(nat \<Rightarrow> real) \<Rightarrow> nat \<Rightarrow> game \<Rightarrow> outcome" where
  "foodScan rnd 0 st = Done st"
| "foodScan rnd (Suc i) st =
     (if \<not> i < length (foods st) then TypeError st
      else
        (let f = foods st ! i in
         case playerSnake st of
           None \<Rightarrow> TypeError st
         | Some p \<Rightarrow>
             (case headOf p of
                None \<Rightarrow> TypeError st
              | Some hp \<Rightarrow>
                  if eq (foodCell f) hp
                  then foodScan rnd i (spliceFood i (consumeFood rnd Player f st))
                  else
                    (case aiSnake st of
                       None \<Rightarrow> foodScan rnd i st
                     | Some a \<Rightarrow>
                         if \<not> alive a then foodScan rnd i st
                         else
                           (case headOf a of
                              None \<Rightarrow> TypeError st
                            | Some ha \<Rightarrow>
                                if eq (foodCell f) ha
                                then foodScan rnd i (spliceFood i (consumeFood rnd AI f st))
                                else foodScan rnd i st)))))"

definition handleFoodCollisions :: "(nat \<Rightarrow> real) \<Rightarrow> game \<Rightarrow> outcome" where
  "handleFoodCollisions rnd st = foodScan rnd (length (foods st)) st"

subsection \<open>Collision checks\<close>

definition isAlive :: "who \<Rightarrow> game \<Rightarrow> bool" where
  "isAlive w st = (case snakeOf w st of None \<Rightarrow> False | Some s \<Rightarrow> alive s)"

text \<open>
  One \<^verbatim>\<open>for\<close> loop of the collision checks: every segment of \<open>segs\<close> equal to
  \<open>h\<close> runs the loop body, which marks the snake dead and calls
  \<^verbatim>\<open>onPlayerDie\<close>.
\<close>

definition hitLoop :: "who \<Rightarrow> cell \<Rightarrow> cell list \<Rightarrow> game \<Rightarrow> game" where
  "hitLoop w h segs st = foldl (\<lambda>s seg. if eq h seg then dies w s else s) st segs"

text \<open>The self-collision loop, over the indices from 1 on.\<close>

definition selfCollision :: "who \<Rightarrow> cell list \<Rightarrow> game \<Rightarrow> game" where
  "selfCollision w b st = (case b of [] \<Rightarrow> st | h # rest \<Rightarrow> hitLoop w h rest st)"

text \<open>
  The head-into-body loop \<^verbatim>\<open>for(let seg of other.body) if(eq(mine.body[0], seg))\<close>:
  with no segment to visit nothing is read; otherwise an \<^verbatim>\<open>undefined\<close> head throws.
\<close>

definition headInto :: "who \<Rightarrow> cell list \<Rightarrow> cell list \<Rightarrow> game \<Rightarrow> outcome" where
  "headInto w mine other st =
     (case other of [] \<Rightarrow> Done st
      | _ # _ \<Rightarrow> (case mine of [] \<Rightarrow> TypeError st | h # _ \<Rightarrow> Done (hitLoop w h other st)))"

definition headToHead :: "cell list \<Rightarrow> cell list \<Rightarrow> game \<Rightarrow> outcome" where
  "headToHead bp ba st =
     (if isAlive Player st then
        (case bp of [] \<Rightarrow> TypeError st
         | hp # _ \<Rightarrow>
             (case ba of [] \<Rightarrow> TypeError st
              | ha # _ \<Rightarrow>
                  if eq hp ha
                  then Done (onPlayerDie BothDied
                         (updSnake AI (\<lambda>s. s\<lparr>alive := False\<rparr>)
                           (updSnake Player (\<lambda>s. s\<lparr>alive := False\<rparr>) st)))
                  else Done st))
      else Done st)"

definition handleCollisionsSingleMode :: "game \<Rightarrow> outcome" where
  "handleCollisionsSingleMode st =
     (case playerSnake st of
        None \<Rightarrow> TypeError st
      | Some p \<Rightarrow>
          (let st1 = (if alive p then selfCollision Player (body p) st else st) in
           case aiSnake st1 of
             None \<Rightarrow> Done st1
           | Some a \<Rightarrow>
               if \<not> alive a then Done st1
               else
                 andThen (headToHead (body p) (body a) (selfCollision AI (body a) st1))
                   (\<lambda>st3. andThen
                       (if isAlive Player st3 then headInto Player (body p) (body a) st3
                        else Done st3)
                       (\<lambda>st4. if isAlive AI st4 then headInto AI (body a) (body p) st4
                              else Done st4))))"

subsection \<open>AI logic\<close>

text \<open>The result of a function that may throw a \<^verbatim>\<open>TypeError\<close> and changes no state.\<close>

datatype 'a js = Returns 'a | Throws

text \<open>
  The loop of \<^verbatim>\<open>findNearestFood\<close>, with \<open>best\<close> and \<open>bestDist\<close> (\<open>None\<close> for
  \<^verbatim>\<open>null\<close> and for \<^verbatim>\<open>Infinity\<close>).
\<close>

fun nearestLoop :: "cell \<Rightarrow> food list \<Rightarrow> food option \<Rightarrow> int option \<Rightarrow> food option" where
  "nearestLoop pos [] best bestDist = best"
| "nearestLoop pos (f # fs) best bestDist =
     (let d = \<bar>fx f - fst pos\<bar> + \<bar>fy f - snd pos\<bar> in
      if (case bestDist of None \<Rightarrow> True | Some b \<Rightarrow> d < b)
      then nearestLoop pos fs (Some f) (Some d)
      else nearestLoop pos fs best bestDist)"

definition findNearestFood :: "cell option \<Rightarrow> game \<Rightarrow> food option js" where
  "findNearestFood pos st =
     (if foods st = [] then Returns None
      else (case pos of None \<Rightarrow> Throws
            | Some p \<Rightarrow> Returns (nearestLoop p (foods st) None None)))"

definition neighbors :: "cell \<Rightarrow> cell list" where
  "neighbors p = [(fst p + 1, snd p), (fst p - 1, snd p), (fst p, snd p + 1), (fst p, snd p - 1)]"

text \<open>
  The \<^verbatim>\<open>for(const n of neighbors)\<close> loop of \<^verbatim>\<open>bfsPath\<close>, on the queue and the
  visited set. The string keys \<^verbatim>\<open>`${p.x},${p.y}`\<close> of the two JavaScript sets
  determine the cell, so the sets are sets of cells.
\<close>

fun visitNeighbors ::
  "cell set \<Rightarrow> cell \<Rightarrow> cell list \<Rightarrow> cell list \<Rightarrow> (cell \<times> cell list) list \<Rightarrow> cell set
     \<Rightarrow> (cell \<times> cell list) list \<times> cell set" where
  "visitNeighbors obstacles goal path [] q visited = (q, visited)"
| "visitNeighbors obstacles goal path (n # ns) q visited =
     (if \<not> insideGrid n then visitNeighbors obstacles goal path ns q visited
      else if n \<in> visited then visitNeighbors obstacles goal path ns q visited
      else if n \<in> obstacles \<and> \<not> eq n goal then visitNeighbors obstacles goal path ns q visited
      else visitNeighbors obstacles goal path ns (q @ [(n, path @ [n])]) (insert n visited))"

text \<open>
  The \<^verbatim>\<open>while(q.length)\<close> loop of \<^verbatim>\<open>bfsPath\<close>. Every cell pushed lies inside
  the grid and was not visited before, so the loop ends: the queue length plus
  twice the number of unvisited grid cells goes down in every round.
\<close>

definition gridCells :: "cell set" where
  "gridCells = {0..<GRID} \<times> {0..<GRID}"

lemma finite_gridCells: "finite gridCells"
  by (simp add: gridCells_def)

lemma insideGrid_iff: "insideGrid n \<longleftrightarrow> n \<in> gridCells"
  by (cases n) (auto simp: insideGrid_def gridCells_def)

lemma visitNeighbors_measure:
  "visitNeighbors obstacles goal path ns q visited = (q', visited') \<Longrightarrow>
   length q' + 2 * card (gridCells - visited') \<le> length q + 2 * card (gridCells - visited)"
proof (induction ns arbitrary: q visited)
  case Nil
  then show ?case by simp
next
  case (Cons n ns)
  show ?case
  proof (cases "insideGrid n \<and> n \<notin> visited \<and> \<not> (n \<in> obstacles \<and> \<not> eq n goal)")
    case True
    then have "visitNeighbors obstacles goal path ns (q @ [(n, path @ [n])]) (insert n visited)
               = (q', visited')"
      using Cons.prems by (auto split: if_splits)
    from Cons.IH[OF this]
    have "length q' + 2 * card (gridCells - visited')
          \<le> Suc (length q) + 2 * card (gridCells - insert n visited)"
      by simp
    moreover have "n \<in> gridCells - visited"
      using True by (simp add: insideGrid_iff)
    then have "card (gridCells - insert n visited) < card (gridCells - visited)"
      by (metis Diff_insert card_Diff1_less finite_Diff finite_gridCells)
    ultimately show ?thesis by linarith
  next
    case False
    then have "visitNeighbors obstacles goal path ns q visited = (q', visited')"
      using Cons.prems by (auto split: if_splits)
    from Cons.IH[OF this] show ?thesis .
  qed
qed

function bfsLoop ::
  "cell set \<Rightarrow> cell \<Rightarrow> (cell \<times> cell list) list \<Rightarrow> cell set \<Rightarrow> cell list option" where
  "bfsLoop obstacles goal [] visited = None"
| "bfsLoop obstacles goal ((p, path) # q) visited =
     (if eq p goal then Some path
      else (case visitNeighbors obstacles goal path (neighbors p) q visited of
              (q', visited') \<Rightarrow> bfsLoop obstacles goal q' visited'))"
  by pat_completeness auto
termination
proof (relation "measure (\<lambda>(obstacles, goal, q, visited).
                   length q + 2 * card (gridCells - visited))", goal_cases)
  case 1
  show ?case by simp
next
  case (2 obstacles goal p path q visited x y)
  then have "visitNeighbors obstacles goal path (neighbors p) q visited = (x, y)"
    by simp
  from visitNeighbors_measure[OF this] show ?case
    by simp
qed

definition bodyCells :: "snake option \<Rightarrow> cell set" where
  "bodyCells so = (case so of None \<Rightarrow> {} | Some s \<Rightarrow> set (body s))"

text \<open>
  \<^verbatim>\<open>bfsPath(start, goal, selfSnake)\<close>; the third argument is not used by the
  script. \<open>None\<close> is \<^verbatim>\<open>null\<close>.
\<close>

definition bfsPath :: "game \<Rightarrow> cell \<Rightarrow> cell \<Rightarrow> cell list option" where
  "bfsPath st start goal =
     (let obstacles = bodyCells (playerSnake st) \<union> bodyCells (aiSnake st)
      in bfsLoop obstacles goal [(start, [start])] {start})"

text \<open>\<^verbatim>\<open>choices[Math.floor(Math.random()*4)]\<close>.\<close>

definition randomChoice :: "(nat \<Rightarrow> real) \<Rightarrow> game \<Rightarrow> direction \<times> game" where
  "randomChoice rnd st =
     (case randomBelow rnd 4 st of (i, st') \<Rightarrow>
        ((if i = 0 then Up else if i = 1 then Down else if i = 2 then Left else Right), st'))"

definition setAIDir :: "direction \<Rightarrow> game \<Rightarrow> game" where
  "setAIDir d st = updSnake AI (\<lambda>s. s\<lparr>dir := d\<rparr>) st"

text \<open>\<^verbatim>\<open>aiSnake.dir = choices[...]\<close>.\<close>

definition randomTurn :: "(nat \<Rightarrow> real) \<Rightarrow> game \<Rightarrow> game" where
  "randomTurn rnd st = (case randomChoice rnd st of (d, st') \<Rightarrow> setAIDir d st')"

text \<open>\<^verbatim>\<open>stepSnake(aiSnake, aiSnake.dir)\<close>.\<close>

definition stepAI :: "game \<Rightarrow> game" where
  "stepAI st = (case aiSnake st of None \<Rightarrow> st | Some a \<Rightarrow> stepSnake AI (dir a) st)"

text \<open>The branch of \<^verbatim>\<open>aiStep\<close> for the difficulty \<^verbatim>\<open>'easy'\<close>.\<close>

definition aiEasy :: "(nat \<Rightarrow> real) \<Rightarrow> cell option \<Rightarrow> game \<Rightarrow> outcome" where
  "aiEasy rnd head st =
     (case mathRandom rnd st of (r, st1) \<Rightarrow>
        (let st2 = (if r < 0.2 then randomTurn rnd st1 else st1) in
         case head of
           None \<Rightarrow> TypeError st2
         | Some h \<Rightarrow>
             (let st3 = (if fst h < 2 then setAIDir Right st2 else st2);
                  st4 = (if fst h > GRID - 3 then setAIDir Left st3 else st3);
                  st5 = (if snd h < 2 then setAIDir Down st4 else st4);
                  st6 = (if snd h > GRID - 3 then setAIDir Up st5 else st5)
              in Done (stepAI st6))))"

text \<open>The turn towards \<^verbatim>\<open>path[1]\<close>.\<close>

definition turnTowards :: "cell \<Rightarrow> cell \<Rightarrow> game \<Rightarrow> game" where
  "turnTowards head next st =
     (let st1 = (if fst next > fst head then setAIDir Right st else st);
          st2 = (if fst next < fst head then setAIDir Left st1 else st1);
          st3 = (if snd next > snd head then setAIDir Down st2 else st2)
      in if snd next < snd head then setAIDir Up st3 else st3)"

text \<open>The branch of \<^verbatim>\<open>aiStep\<close> for the other difficulties.\<close>

definition aiSeek :: "(nat \<Rightarrow> real) \<Rightarrow> cell option \<Rightarrow> difficulty option \<Rightarrow> game \<Rightarrow> outcome" where
  "aiSeek rnd head diff st =
     (case findNearestFood head st of
        Throws \<Rightarrow> TypeError st
      | Returns None \<Rightarrow> Done (stepAI st)
      | Returns (Some target) \<Rightarrow>
          (case head of
             None \<Rightarrow> TypeError st
           | Some h \<Rightarrow>
               (let st1 = (case bfsPath st h (foodCell target) of
                             Some (p0 # next # rest) \<Rightarrow> turnTowards h next st
                           | _ \<Rightarrow> randomTurn rnd st);
                    st2 = (if diff = Some NormalAI
                           then (case mathRandom rnd st1 of (r, st') \<Rightarrow>
                                   if r < 0.12 then randomTurn rnd st' else st')
                           else st1)
                in Done (stepAI st2))))"

definition aiStep :: "(nat \<Rightarrow> real) \<Rightarrow> game \<Rightarrow> outcome" where
  "aiStep rnd st =
     (case aiSnake st of
        None \<Rightarrow> TypeError st
      | Some a \<Rightarrow>
          if \<not> alive a then Done st
          else if difficulty a = Some Easy then aiEasy rnd (headOf a) st
          else aiSeek rnd (headOf a) (difficulty a) st)"

subsection \<open>Starting a game\<close>

text \<open>
  \<^verbatim>\<open>initGame\<close>. The first food is placed before the AI snake is made, so
  \<^verbatim>\<open>collisionAt\<close> still sees the AI snake of the game before.
\<close>

definition initGame :: "(nat \<Rightarrow> real) \<Rightarrow> game \<Rightarrow> game" where
  "initGame rnd st =
     (let st1 = (stopTick st)\<lparr>foods := [], score := 0, tickInterval := BASE_TICK,
                               speedBoost := 0, gameTime := 0, invisibleTailTicks := 0,
                               playerDir := Right\<rparr>;
          mid = GRID div 2;
          st2 = st1\<lparr>playerSnake :=
                      Some (makeSnake [(mid - 2, mid), (mid - 3, mid), (mid - 4, mid)] ''#00e0ff'')\<rparr>;
          st3 = snd (placeFood rnd Normal st2);
          st4 = st3\<lparr>specialTimer := True\<rparr>;
          st5 = (if mode st4 = Some AIMode
                 then (let px = \<lfloor>of_int GRID * (0.2 :: real)\<rfloor>; py = \<lfloor>of_int GRID * (0.2 :: real)\<rfloor>
                       in st4\<lparr>aiSnake :=
                                 Some ((makeSnake [(px, py), (px - 1, py), (px - 2, py)] ''#ff8b4b'')
                                         \<lparr>dir := Right, difficulty := Some (aiDifficulty st4)\<rparr>)\<rparr>)
                 else st4\<lparr>aiSnake := None\<rparr>)
      in st5\<lparr>gameOverPanel := None\<rparr>)"

definition startMenuMode :: "(nat \<Rightarrow> real) \<Rightarrow> gameMode \<Rightarrow> game \<Rightarrow> game" where
  "startMenuMode rnd m st = startTick (initGame rnd (st\<lparr>mode := Some m\<rparr>))"

definition startAIMode :: "(nat \<Rightarrow> real) \<Rightarrow> difficulty \<Rightarrow> game \<Rightarrow> game" where
  "startAIMode rnd diff st = startMenuMode rnd AIMode (st\<lparr>aiDifficulty := diff\<rparr>)"

definition restartGame :: "(nat \<Rightarrow> real) \<Rightarrow> game \<Rightarrow> game" where
  "restartGame rnd st =
     (let st1 = initGame rnd st
      in if mode st1 = Some Single \<or> mode st1 = Some AIMode then startTick st1 else st1)"

definition backToMenu :: "game \<Rightarrow> game" where
  "backToMenu st = stopTick st"

definition togglePause :: "game \<Rightarrow> game" where
  "togglePause st = (if running st then stopTick st else startTick st)"

text \<open>The callback of the ten-second interval that \<^verbatim>\<open>initGame\<close> arms.\<close>

definition specialSpawn :: "(nat \<Rightarrow> real) \<Rightarrow> game \<Rightarrow> game" where
  "specialSpawn rnd st =
     (if list_ex (\<lambda>f. ftype f = Special) (foods st) then st
      else (case mathRandom rnd st of (r, st1) \<Rightarrow>
              if r < 0.6 then snd (placeFood rnd Special st1) else st1))"

text \<open>The \<^verbatim>\<open>setTimeout\<close> callback of the slow effect.\<close>

definition slowRevert :: "game \<Rightarrow> game" where
  "slowRevert st =
     (let st1 = st\<lparr>tickInterval :=
                     max MIN_TICK (BASE_TICK - (score st div 5) * 10 - speedBoost st),
                   slowTimeouts := slowTimeouts st - 1\<rparr>
      in if running st1 then startTick st1 else st1)"

text \<open>
  The \<^verbatim>\<open>keydown\<close> listener, on the lower-cased key \<open>k\<close>. The message to the
  multiplayer server is not modelled.
\<close>

definition keydown :: "string \<Rightarrow> game \<Rightarrow> game" where
  "keydown k st =
     (if \<not> running st \<and> k = ''p'' then togglePause st
      else
        (let st1 = (if k = ''w'' \<and> playerDir st \<noteq> Down then st\<lparr>playerDir := Up\<rparr> else st);
             st2 = (if k = ''s'' \<and> playerDir st1 \<noteq> Up then st1\<lparr>playerDir := Down\<rparr> else st1);
             st3 = (if k = ''a'' \<and> playerDir st2 \<noteq> Right then st2\<lparr>playerDir := Left\<rparr> else st2)
         in if k = ''d'' \<and> playerDir st3 \<noteq> Left then st3\<lparr>playerDir := Right\<rparr> else st3))"

subsection \<open>The tick\<close>

text \<open>
  \<^verbatim>\<open>gameTick\<close> for the modes \<^verbatim>\<open>'single'\<close> and \<^verbatim>\<open>'ai'\<close>; with no mode chosen
  yet only the clock advances.
\<close>

definition endOfTick :: "game \<Rightarrow> game" where
  "endOfTick st =
     (let st1 = setSpeedFromScore st
      in if invisibleTailTicks st1 > 0
         then st1\<lparr>invisibleTailTicks := invisibleTailTicks st1 - 1\<rparr> else st1)"

definition gameTick :: "(nat \<Rightarrow> real) \<Rightarrow> game \<Rightarrow> outcome" where
  "gameTick rnd st =
     (let st1 = st\<lparr>gameTime := gameTime st + of_int (tickInterval st) / 1000\<rparr> in
      case mode st1 of
        None \<Rightarrow> Done st1
      | Some m \<Rightarrow>
          (let st2 = stepSnake Player (playerDir st1) st1 in
           andThen (if m = AIMode \<and> isAlive AI st2 then aiStep rnd st2 else Done st2)
             (\<lambda>st3. andThen (handleFoodCollisions rnd st3)
                (\<lambda>st4. andThen (handleCollisionsSingleMode st4)
                   (\<lambda>st5. Done (endOfTick st5))))))"

subsection \<open>Events\<close>

text \<open>
  What can happen to the page: the menu buttons, a key press, the timers
  firing, and time passing. The tick fires only while the tick timer is
  armed, the special-food interval only once \<^verbatim>\<open>initGame\<close> has armed it, and a
  slow-effect timeout only while one is pending.
\<close>

datatype event =
    ClickSingle
  | ClickAI difficulty
  | ClickRestart
  | ClickBack
  | ClickPause
  | KeyDown string
  | TickTimer
  | SpecialTimer
  | SlowTimeout
  | TimePasses int

definition bootState :: game where
  "bootState =
     \<lparr>mode = None, running = False, tickInterval = BASE_TICK, score = 0,
      playerDir = Right, invisibleTailTicks = 0, speedBoost = 0,
      playerSnake = None, aiSnake = None, foods = [], gameTime = 0,
      aiDifficulty = NormalAI, gameOverPanel = None, specialTimer = False,
      slowTimeouts = 0, randomCalls = 0, dateNow = 0\<rparr>"

fun enabled :: "event \<Rightarrow> game \<Rightarrow> bool" where
  "enabled TickTimer st = running st"
| "enabled SpecialTimer st = specialTimer st"
| "enabled SlowTimeout st = (slowTimeouts st > 0)"
| "enabled _ st = True"

fun handle :: "(nat \<Rightarrow> real) \<Rightarrow> event \<Rightarrow> game \<Rightarrow> outcome" where
  "handle rnd ClickSingle st = Done (startMenuMode rnd Single st)"
| "handle rnd (ClickAI diff) st = Done (startAIMode rnd diff st)"
| "handle rnd ClickRestart st = Done (restartGame rnd st)"
| "handle rnd ClickBack st = Done (backToMenu st)"
| "handle rnd ClickPause st = Done (togglePause st)"
| "handle rnd (KeyDown k) st = Done (keydown k st)"
| "handle rnd TickTimer st = gameTick rnd st"
| "handle rnd SpecialTimer st = Done (specialSpawn rnd st)"
| "handle rnd SlowTimeout st = Done (slowRevert st)"
| "handle rnd (TimePasses t) st = Done (st\<lparr>dateNow := t\<rparr>)"

text \<open>
  The states a page can reach from its load, for a given random sequence. An
  event handler that throws leaves the state it had reached.
\<close>

inductive reachable :: "(nat \<Rightarrow> real) \<Rightarrow> game \<Rightarrow> bool" for rnd :: "nat \<Rightarrow> real" where
  boot: "reachable rnd bootState"
| event: "reachable rnd st \<Longrightarrow> enabled e st \<Longrightarrow> reachable rnd (final (handle rnd e st))"

subsection \<open>Example states\<close>

text \<open>
  A running single-player game whose player snake has the given body, and a
  running game against the AI with the two given bodies.
\<close>

definition soloGame :: "cell list \<Rightarrow> game" where
  "soloGame cells =
     bootState\<lparr>mode := Some Single, running := True,
                playerSnake := Some (makeSnake cells ''#00e0ff'')\<rparr>"

definition duelGame :: "cell list \<Rightarrow> cell list \<Rightarrow> game" where
  "duelGame cells aiCells =
     bootState\<lparr>mode := Some AIMode, running := True,
                playerSnake := Some (makeSnake cells ''#00e0ff''),
                aiSnake := Some ((makeSnake aiCells ''#ff8b4b'')\<lparr>difficulty := Some Hard\<rparr>)\<rparr>"

definition foodAt :: "cell \<Rightarrow> ftype \<Rightarrow> subtype option \<Rightarrow> food" where
  "foodAt c ty sub = \<lparr>fx = fst c, fy = snd c, ftype = ty, spawnedAt = 0, subtype = sub\<rparr>"

definition opponent :: "who \<Rightarrow> who" where
  "opponent w = (case w of Player \<Rightarrow> AI | AI \<Rightarrow> Player)"

text \<open>
  The cell the \<open>j\<close>-th call of \<^verbatim>\<open>randCell\<close> from the state \<open>st\<close> on returns,
  each call making two calls of \<^verbatim>\<open>Math.random\<close>.
\<close>

definition nthSample :: "(nat \<Rightarrow> real) \<Rightarrow> game \<Rightarrow> nat \<Rightarrow> cell" where
  "nthSample rnd st j = fst (randCell rnd (st\<lparr>randomCalls := randomCalls st + 2 * j\<rparr>))"

text \<open>
  No snake is alive and no tick timer is armed in \<open>st'\<close> that was not so in
  \<open>st\<close>, and a game-over notice shown in \<open>st\<close> is still shown (possibly with
  another text) in \<open>st'\<close>.
\<close>

definition noRevival :: "game \<Rightarrow> game \<Rightarrow> bool" where
  "noRevival st st' \<longleftrightarrow>
     (\<forall>w. isAlive w st' \<longrightarrow> isAlive w st)
   \<and> (running st' \<longrightarrow> running st)
   \<and> (gameOverPanel st \<noteq> None \<longrightarrow> gameOverPanel st' \<noteq> None)"

text \<open>
  The number of special foods on the board, the cells of the two snakes, and
  the relation between the states before and after an operation that does not
  raise a non-negative \<open>speedBoost\<close>, adds no special food and puts the
  snakes on no cell outside the grid that they did not hold before.
\<close>

definition specials :: "game \<Rightarrow> nat" where
  "specials st = length (filter (\<lambda>f. ftype f = Special) (foods st))"

definition allCells :: "game \<Rightarrow> cell set" where
  "allCells st = bodyCells (playerSnake st) \<union> bodyCells (aiSnake st)"

definition steady :: "game \<Rightarrow> game \<Rightarrow> bool" where
  "steady st st' \<longleftrightarrow>
     (0 \<le> speedBoost st \<longrightarrow> 0 \<le> speedBoost st' \<and> speedBoost st' \<le> speedBoost st)
   \<and> specials st' \<le> specials st
   \<and> (\<forall>c \<in> allCells st'. insideGrid c \<or> c \<in> allCells st)"

text \<open>
  A sample run: a random sequence that puts the first food on \<open>(14,15)\<close>,
  right in front of the player, and yields 0 afterwards; the game after the
  click on the single-player button, after the first tick (the player eats),
  and after the special-food timer has fired once.
\<close>

definition demoRandom :: "nat \<Rightarrow> real" where
  "demoRandom k = (if k = 0 then 29/60 else if k = 1 then 31/60 else 0)"

definition started :: game where
  "started = final (handle demoRandom ClickSingle bootState)"

definition afterFirstMeal :: game where
  "afterFirstMeal = final (handle demoRandom TickTimer started)"

definition withSpecial :: game where
  "withSpecial = final (handle demoRandom SpecialTimer afterFirstMeal)"

text \<open>
  Paths on the grid, as the search sees them. A cell can be entered when it is
  inside the grid and is either no obstacle or the goal. A walk is a non-empty
  list of cells in which every cell after the first is one of the four
  neighbours of the cell before it and can be entered; the first cell is where
  the search stands and is not tested. A route from \<open>start\<close> to \<open>p\<close> is a walk
  with these two ends, its hop count is its number of steps, and the shortest
  hop count is the least hop count of a route from the start to the goal.
\<close>

definition passable :: "cell set \<Rightarrow> cell \<Rightarrow> cell \<Rightarrow> bool" where
  "passable obstacles goal n \<longleftrightarrow> insideGrid n \<and> (n \<notin> obstacles \<or> n = goal)"

fun walk :: "cell set \<Rightarrow> cell \<Rightarrow> cell list \<Rightarrow> bool" where
  "walk obstacles goal [] = False"
| "walk obstacles goal [p] = True"
| "walk obstacles goal (p # n # rest) =
     (n \<in> set (neighbors p) \<and> passable obstacles goal n \<and> walk obstacles goal (n # rest))"

definition route :: "cell set \<Rightarrow> cell \<Rightarrow> cell \<Rightarrow> cell \<Rightarrow> cell list \<Rightarrow> bool" where
  "route obstacles goal start p path \<longleftrightarrow>
     path \<noteq> [] \<and> hd path = start \<and> last path = p \<and> walk obstacles goal path"

definition hops :: "cell list \<Rightarrow> nat" where
  "hops path = length path - 1"

definition shortestHops :: "cell set \<Rightarrow> cell \<Rightarrow> cell \<Rightarrow> nat" where
  "shortestHops obstacles start goal =
     (LEAST n. \<exists>tr. route obstacles goal start goal tr \<and> hops tr = n)"

text \<open>
  The invariant of the search loop: the start is visited; every queue entry
  carries a route from the start to its cell, which is visited; the path
  lengths in the queue are sorted and differ by at most one; on every walk
  from the start that ends outside the visited set, the last visited cell is
  in the queue with a path no longer than the walk up to it; every queued path
  is a shortest route to its cell; and the goal, once visited, is in the queue.
\<close>

definition bfsInv ::
  "cell set \<Rightarrow> cell \<Rightarrow> cell \<Rightarrow> (cell \<times> cell list) list \<Rightarrow> cell set \<Rightarrow> bool" where
  "bfsInv obstacles goal start q visited \<longleftrightarrow>
     start \<in> visited
   \<and> (\<forall>(p, path) \<in> set q. route obstacles goal start p path \<and> p \<in> visited)
   \<and> sorted (map (\<lambda>e. length (snd e)) q)
   \<and> (\<forall>e \<in> set q. length (snd e) \<le> Suc (length (snd (hd q))))
   \<and> (\<forall>tr j. walk obstacles goal tr \<and> hd tr = start \<and> last tr \<notin> visited
              \<and> j < length tr \<and> tr ! j \<in> visited
              \<and> (\<forall>k. j < k \<and> k < length tr \<longrightarrow> tr ! k \<notin> visited)
          \<longrightarrow> (\<exists>path. (tr ! j, path) \<in> set q \<and> length path \<le> Suc j))
   \<and> (\<forall>(p, path) \<in> set q. \<forall>tr. route obstacles goal start p tr \<longrightarrow> length path \<le> length tr)
   \<and> (goal \<in> visited \<longrightarrow> goal \<in> fst ` set q)"

section \<open>Properties\<close>

subsection \<open>Reading and writing the two snakes\<close>

lemma snakeOf_setSnake [simp]: "snakeOf w (setSnake w s st) = Some s"
  by (cases w) (simp_all add: snakeOf_def setSnake_def)

lemma snakeOf_setSnake_other [simp]:
  "snakeOf (opponent w) (setSnake w s st) = snakeOf (opponent w) st"
  by (cases w) (simp_all add: snakeOf_def setSnake_def opponent_def)

lemma snakeOf_onPlayerDie [simp]: "snakeOf w (onPlayerDie x st) = snakeOf w st"
  by (cases w)
     (simp_all add: snakeOf_def onPlayerDie_def stopTick_def showGameOver_def
        split: option.splits gameMode.splits)

lemma running_onPlayerDie [simp]: "running (onPlayerDie x st) = False"
  by (simp add: onPlayerDie_def stopTick_def)

lemma snakeOf_frame [simp]:
  "snakeOf w (st\<lparr>randomCalls := n\<rparr>) = snakeOf w st"
  "snakeOf w (st\<lparr>foods := fs\<rparr>) = snakeOf w st"
  "snakeOf w (st\<lparr>score := x\<rparr>) = snakeOf w st"
  "snakeOf w (st\<lparr>speedBoost := y\<rparr>) = snakeOf w st"
  by (cases w; simp add: snakeOf_def)+

lemma eq_iff [simp]: "eq a b \<longleftrightarrow> a = b"
  by (cases a; cases b) (simp add: eq_def)

lemma bodyHits_iff: "bodyHits so pos \<longleftrightarrow> pos \<in> bodyCells so"
  by (cases so) (auto simp: bodyHits_def bodyCells_def list_ex_iff)

lemma collisionAt_iff:
  "collisionAt st pos \<longleftrightarrow> pos \<in> bodyCells (playerSnake st) \<union> bodyCells (aiSnake st)"
  by (simp add: collisionAt_def bodyHits_iff)

subsection \<open>The step\<close>

text \<open>
  C4. A live snake whose new head (the head moved one cell in the direction
  given) is inside the grid gets the new head in front. If its
  \<open>pendingGrow\<close> was positive it is decremented and the tail stays, so the body
  is one longer; otherwise the last segment is dropped and the length is
  unchanged. Nothing else in the game changes.
\<close>

theorem stepSnake_inside:
  assumes "snakeOf w st = Some s" and "alive s" and "body s = h # rest"
    and "insideGrid (offset d h)"
  shows "stepSnake w d st =
           setSnake w
             (if pendingGrow s > 0
              then s\<lparr>body := offset d h # body s, pendingGrow := pendingGrow s - 1\<rparr>
              else s\<lparr>body := offset d h # butlast (body s)\<rparr>) st
         \<and> (\<exists>s'. snakeOf w (stepSnake w d st) = Some s'
                \<and> length (body s') =
                    (if pendingGrow s > 0 then length (body s) + 1 else length (body s)))"
  using assms by (simp add: stepSnake_def Let_def)

text \<open>
  The player snake \<open>[(5,5),(4,5),(3,5)]\<close> with no pending growth, stepping
  right, becomes \<open>[(6,5),(5,5),(4,5)]\<close>.
\<close>

theorem stepSnake_inside_witness:
  "snakeOf Player (soloGame [(5,5),(4,5),(3,5)]) = Some (makeSnake [(5,5),(4,5),(3,5)] ''#00e0ff'')
   \<and> alive (makeSnake [(5,5),(4,5),(3,5)] ''#00e0ff'')
   \<and> insideGrid (offset Right (5,5))
   \<and> stepSnake Player Right (soloGame [(5,5),(4,5),(3,5)]) = soloGame [(6,5),(5,5),(4,5)]"
  using stepSnake_inside[of Player "soloGame [(5,5),(4,5),(3,5)]"
          "makeSnake [(5,5),(4,5),(3,5)] ''#00e0ff''" "(5,5)" "[(4,5),(3,5)]" Right]
  by (simp add: soloGame_def snakeOf_def setSnake_def makeSnake_def insideGrid_def
        offset_def GRID_def bootState_def)

subsection \<open>Poison\<close>

text \<open>
  The poison effect itself. The score becomes \<open>max 0 (score - 2)\<close> when the
  eater is the player and is unchanged otherwise; the eater's body loses its
  last two segments, or all of them when it has fewer than two (the length
  becomes \<open>length - 2\<close>, cut off at 0, and what stays is a prefix of the old
  body); a body of two segments becomes empty.
\<close>

theorem consumeFood_poison:
  assumes "ftype fd = Special" and "subtype fd = Some Poison" and "snakeOf eater st = Some s"
  shows "consumeFood rnd eater fd st =
           setSnake eater (s\<lparr>body := take (length (body s) - 2) (body s)\<rparr>)
             (st\<lparr>score := (if eater = Player then max 0 (score st - 2) else score st)\<rparr>)
         \<and> length (body s) - length (take (length (body s) - 2) (body s)) \<le> 2
         \<and> length (take (length (body s) - 2) (body s)) = length (body s) - 2
         \<and> (length (body s) = 2 \<longrightarrow> take (length (body s) - 2) (body s) = [])"
proof -
  have "butlast (butlast (body s)) = take (length (body s) - 2) (body s)"
    by (simp add: butlast_conv_take numeral_2_eq_2)
  with assms show ?thesis
    by (cases eater) (auto simp add: consumeFood_def updSnake_def Let_def setSnake_def)
qed

text \<open>A player of two segments and score 1 eats a poison food: score 0, empty body.\<close>

theorem consumeFood_poison_witness:
  "ftype (foodAt (5,5) Special (Some Poison)) = Special
   \<and> subtype (foodAt (5,5) Special (Some Poison)) = Some Poison
   \<and> snakeOf Player ((soloGame [(5,5),(4,5)])\<lparr>score := 1\<rparr>) = Some (makeSnake [(5,5),(4,5)] ''#00e0ff'')
   \<and> consumeFood (\<lambda>k. 0) Player (foodAt (5,5) Special (Some Poison))
        ((soloGame [(5,5),(4,5)])\<lparr>score := 1\<rparr>) = soloGame []"
  using consumeFood_poison[of "foodAt (5,5) Special (Some Poison)" Player
          "(soloGame [(5,5),(4,5)])\<lparr>score := 1\<rparr>" "makeSnake [(5,5),(4,5)] ''#00e0ff''" "\<lambda>k. 0"]
  by (simp add: soloGame_def snakeOf_def setSnake_def makeSnake_def foodAt_def bootState_def)

text \<open>
  Once poison has emptied the player's body, an iteration of the food scan
  that still follows in the same call reads the head of an empty body and
  throws.
\<close>

lemma foodScan_headless:
  "playerSnake st = Some p \<Longrightarrow> body p = [] \<Longrightarrow> i < length (foods st) \<Longrightarrow>
   foodScan rnd (Suc i) st = TypeError st"
  by (simp add: headOf_def)

text \<open>
  C3. The claim is that a snake of two segments that eats a poison food ends
  with 0 or 1 segments and that no crash occurs. The script does not keep the
  second part. When the player, with a body of one or two segments, has its
  head on a poison food that is not the first entry of the food list, the
  scan of \<open>handleFoodCollisions\<close> lets the player eat it, which empties the
  body, and its next iteration evaluates \<^verbatim>\<open>eq(f, playerSnake.body[0])\<close> on the
  missing head: the call ends in an uncaught \<^verbatim>\<open>TypeError\<close>, in the state
  reached after the meal, and the rest of the tick is skipped.
\<close>

theorem poison_scan_throws:
  assumes "playerSnake st = Some p" and "body p = h # rest" and "length rest \<le> 1"
    and "Suc i < length (foods st)" and "foodCell (foods st ! Suc i) = h"
    and "ftype (foods st ! Suc i) = Special" and "subtype (foods st ! Suc i) = Some Poison"
  shows "foodScan rnd (Suc (Suc i)) st =
           TypeError (spliceFood (Suc i) (consumeFood rnd Player (foods st ! Suc i) st))
       \<and> playerSnake (spliceFood (Suc i) (consumeFood rnd Player (foods st ! Suc i) st))
           = Some (p\<lparr>body := []\<rparr>)"
proof -
  let ?f = "foods st ! Suc i"
  let ?st' = "spliceFood (Suc i) (consumeFood rnd Player ?f st)"
  have cf: "consumeFood rnd Player ?f st =
              (st\<lparr>score := max 0 (score st - 2)\<rparr>)\<lparr>playerSnake := Some (p\<lparr>body := []\<rparr>)\<rparr>"
    using assms(1,2,3,6,7)
    by (cases rest)
       (simp_all add: consumeFood_def updSnake_def setSnake_def snakeOf_def Let_def)
  have pl: "playerSnake ?st' = Some (p\<lparr>body := []\<rparr>)"
    by (simp add: cf spliceFood_def)
  have len: "i < length (foods ?st')"
    using assms(4) by (simp add: cf spliceFood_def)
  have "foodScan rnd (Suc (Suc i)) st = foodScan rnd (Suc i) ?st'"
    using assms(1,2,4,5) by (simp add: headOf_def Let_def)
  also have "\<dots> = TypeError ?st'"
    using pl len by (intro foodScan_headless[of _ "p\<lparr>body := []\<rparr>"]) simp_all
  finally show ?thesis using pl by simp
qed

text \<open>
  A single-player game, the player \<open>[(5,5),(4,5)]\<close> with its head on a poison
  food that follows a normal food in the list: the scan throws with the body
  emptied and the normal food still on the board.
\<close>

theorem poison_scan_throws_witness:
  "playerSnake ((soloGame [(5,5),(4,5)])
       \<lparr>foods := [foodAt (9,9) Normal None, foodAt (5,5) Special (Some Poison)]\<rparr>)
     = Some (makeSnake [(5,5),(4,5)] ''#00e0ff'')
   \<and> body (makeSnake [(5,5),(4,5)] ''#00e0ff'') = [(5,5),(4,5)]
   \<and> foodCell (foodAt (5,5) Special (Some Poison)) = (5,5)
   \<and> handleFoodCollisions (\<lambda>k. 0)
        ((soloGame [(5,5),(4,5)])
           \<lparr>foods := [foodAt (9,9) Normal None, foodAt (5,5) Special (Some Poison)]\<rparr>)
      = TypeError ((soloGame [])\<lparr>foods := [foodAt (9,9) Normal None]\<rparr>)"
  using poison_scan_throws[of
          "(soloGame [(5,5),(4,5)])
             \<lparr>foods := [foodAt (9,9) Normal None, foodAt (5,5) Special (Some Poison)]\<rparr>"
          "makeSnake [(5,5),(4,5)] ''#00e0ff''" "(5,5)" "[(4,5)]" 0 "\<lambda>k. 0"]
  by (simp add: handleFoodCollisions_def soloGame_def makeSnake_def foodAt_def foodCell_def
        bootState_def consumeFood_def updSnake_def setSnake_def snakeOf_def spliceFood_def
        headOf_def Let_def)

subsection \<open>The food spawner\<close>

lemma randCell_state: "snd (randCell rnd st) = st\<lparr>randomCalls := randomCalls st + 2\<rparr>"
  by (simp add: randCell_def randomBelow_def mathRandom_def)

lemma randCell_fst: "fst (randCell rnd st) = nthSample rnd st 0"
  by (simp add: nthSample_def)

lemma nthSample_shift:
  "nthSample rnd (st\<lparr>randomCalls := randomCalls st + 2\<rparr>) j = nthSample rnd st (Suc j)"
  by (simp add: nthSample_def randCell_def randomBelow_def mathRandom_def)

lemma collisionAt_upd [simp]:
  "collisionAt (st\<lparr>randomCalls := n\<rparr>) pos = collisionAt st pos"
  "collisionAt (st\<lparr>foods := fs\<rparr>) pos = collisionAt st pos"
  by (simp_all add: collisionAt_def)

lemma randomSpecialSubtype_state:
  "snd (randomSpecialSubtype rnd st) = st\<lparr>randomCalls := Suc (randomCalls st)\<rparr>"
  by (simp add: randomSpecialSubtype_def randomBelow_def mathRandom_def)

lemma placeFoodFrom_end:
  "\<not> attempt < 200 \<Longrightarrow> placeFoodFrom rnd ty attempt st = (None, st)"
  by (simp add: placeFoodFrom.simps[of rnd ty attempt st])

lemma placeFoodFrom_collide:
  assumes "attempt < 200" and "collisionAt st (nthSample rnd st 0)"
  shows "placeFoodFrom rnd ty attempt st =
         placeFoodFrom rnd ty (Suc attempt) (st\<lparr>randomCalls := randomCalls st + 2\<rparr>)"
proof -
  have "randCell rnd st = (nthSample rnd st 0, st\<lparr>randomCalls := randomCalls st + 2\<rparr>)"
    using randCell_state[of rnd st] randCell_fst[of rnd st] by (cases "randCell rnd st") simp
  then show ?thesis
    using assms by (simp add: placeFoodFrom.simps[of rnd ty attempt st])
qed

lemma placeFoodFrom_free:
  assumes "attempt < 200" and "\<not> collisionAt st (nthSample rnd st 0)"
  shows "\<exists>f n. placeFoodFrom rnd ty attempt st =
                 (Some f, st\<lparr>randomCalls := n, foods := foods st @ [f]\<rparr>)
             \<and> foodCell f = nthSample rnd st 0 \<and> ftype f = ty
             \<and> (subtype f = None \<longleftrightarrow> ty = Normal)"
proof -
  have rc: "randCell rnd st = (nthSample rnd st 0, st\<lparr>randomCalls := randomCalls st + 2\<rparr>)"
    using randCell_state[of rnd st] randCell_fst[of rnd st] by (cases "randCell rnd st") simp
  define pos where "pos = nthSample rnd st 0"
  define st1 where "st1 = st\<lparr>randomCalls := randomCalls st + 2\<rparr>"
  define f0 where "f0 = \<lparr>fx = fst pos, fy = snd pos, ftype = ty,
                          spawnedAt = dateNow st1, subtype = None\<rparr>"
  have rc': "randCell rnd st = (pos, st1)" and free: "\<not> collisionAt st1 pos"
    using rc assms(2) by (simp_all add: pos_def st1_def)
  show ?thesis
  proof (cases ty)
    case Normal
    have "placeFoodFrom rnd ty attempt st = (Some f0, st1\<lparr>foods := foods st1 @ [f0]\<rparr>)"
      unfolding placeFoodFrom.simps[of rnd ty attempt st]
      using assms(1) rc' free Normal by (simp add: f0_def Let_def)
    then have "placeFoodFrom rnd ty attempt st =
                 (Some f0, st\<lparr>randomCalls := randomCalls st + 2, foods := foods st @ [f0]\<rparr>)"
      by (simp add: st1_def)
    moreover have "foodCell f0 = nthSample rnd st 0" "ftype f0 = ty" "subtype f0 = None"
      by (simp_all add: f0_def foodCell_def pos_def)
    ultimately show ?thesis using Normal by blast
  next
    case Special
    obtain sub st2 where rs: "randomSpecialSubtype rnd st1 = (sub, st2)"
      by (cases "randomSpecialSubtype rnd st1")
    have st2: "st2 = st1\<lparr>randomCalls := Suc (randomCalls st1)\<rparr>"
      using randomSpecialSubtype_state[of rnd st1] rs by simp
    define f where "f = f0\<lparr>subtype := Some sub\<rparr>"
    have "placeFoodFrom rnd ty attempt st = (Some f, st2\<lparr>foods := foods st2 @ [f]\<rparr>)"
      unfolding placeFoodFrom.simps[of rnd ty attempt st]
      using assms(1) rc' free Special rs by (simp add: f0_def f_def Let_def)
    then have "placeFoodFrom rnd ty attempt st =
                 (Some f, st\<lparr>randomCalls := randomCalls st + 3, foods := foods st @ [f]\<rparr>)"
      by (simp add: st1_def st2)
    moreover have "foodCell f = nthSample rnd st 0" "ftype f = ty" "subtype f \<noteq> None"
      by (simp_all add: f_def f0_def foodCell_def pos_def)
    moreover have "ty \<noteq> Normal" using Special by simp
    ultimately show ?thesis
      by - (rule exI[of _ f], rule exI[of _ "randomCalls st + 3"], simp)
  qed
qed

lemma placeFoodFrom_result:
  "placeFoodFrom rnd ty k st = (r, st') \<Longrightarrow>
     (case r of
        None \<Rightarrow> st' = st\<lparr>randomCalls := randomCalls st + 2 * (200 - k)\<rparr>
                \<and> (\<forall>j < 200 - k. collisionAt st (nthSample rnd st j))
      | Some f \<Rightarrow> (\<exists>j < 200 - k. foodCell f = nthSample rnd st j
                       \<and> (\<forall>i < j. collisionAt st (nthSample rnd st i)))
                  \<and> \<not> collisionAt st (foodCell f)
                  \<and> ftype f = ty \<and> (subtype f = None \<longleftrightarrow> ty = Normal)
                  \<and> st' = st\<lparr>randomCalls := randomCalls st', foods := foods st @ [f]\<rparr>)"
proof (induction m \<equiv> "200 - k" arbitrary: k st)
  case 0
  then have "placeFoodFrom rnd ty k st = (None, st)" by (simp add: placeFoodFrom_end)
  with 0 show ?case by simp
next
  case (Suc m)
  then have lt: "k < 200" and m: "m = 200 - Suc k" by simp_all
  define st1 where "st1 = st\<lparr>randomCalls := randomCalls st + 2\<rparr>"
  have shift: "nthSample rnd st1 j = nthSample rnd st (Suc j)" for j
    unfolding st1_def by (rule nthSample_shift)
  have coll: "collisionAt st1 c = collisionAt st c" for c by (simp add: st1_def)
  show ?case
  proof (cases "collisionAt st (nthSample rnd st 0)")
    case False
    from placeFoodFrom_free[OF lt False, of ty]
    obtain f n where pf: "placeFoodFrom rnd ty k st =
                            (Some f, st\<lparr>randomCalls := n, foods := foods st @ [f]\<rparr>)"
      and f: "foodCell f = nthSample rnd st 0" "ftype f = ty" "subtype f = None \<longleftrightarrow> ty = Normal"
      by (elim exE conjE)
    from pf Suc.prems have r: "r = Some f"
      and s: "st' = st\<lparr>randomCalls := n, foods := foods st @ [f]\<rparr>"
      by simp_all
    have "0 < 200 - k \<and> foodCell f = nthSample rnd st 0
            \<and> (\<forall>i < (0::nat). collisionAt st (nthSample rnd st i))"
      using lt f by simp
    then have "\<exists>j < 200 - k. foodCell f = nthSample rnd st j
                       \<and> (\<forall>i < j. collisionAt st (nthSample rnd st i))"
      by (rule exI[of _ 0])
    moreover have "\<not> collisionAt st (foodCell f)" using False f by simp
    moreover have "st' = st\<lparr>randomCalls := randomCalls st', foods := foods st @ [f]\<rparr>"
      by (simp add: s)
    ultimately show ?thesis unfolding r option.case using f by simp
  next
    case True
    have rec: "placeFoodFrom rnd ty (Suc k) st1 = (r, st')"
      using placeFoodFrom_collide[OF lt True, of ty] Suc.prems by (simp add: st1_def)
    note IH = Suc.hyps(1)[OF m rec]
    have all_below: "collisionAt st (nthSample rnd st i)"
      if "\<forall>i' < j. collisionAt st1 (nthSample rnd st1 i')" and "i < Suc j" for i j
    proof (cases i)
      case 0 with True show ?thesis by simp
    next
      case (Suc i')
      with that have "collisionAt st1 (nthSample rnd st1 i')" by simp
      then show ?thesis using Suc by (simp add: shift coll)
    qed
    show ?thesis
    proof (cases r)
      case None
      with IH have a: "st' = st1\<lparr>randomCalls := randomCalls st1 + 2 * (200 - Suc k)\<rparr>"
        and b: "\<forall>j < 200 - Suc k. collisionAt st1 (nthSample rnd st1 j)" by simp_all
      have "randomCalls st + 2 + 2 * (200 - Suc k) = randomCalls st + 2 * (200 - k)"
        using lt by simp
      then have "st' = st\<lparr>randomCalls := randomCalls st + 2 * (200 - k)\<rparr>"
        using a by (simp add: st1_def)
      moreover have "\<forall>j < 200 - k. collisionAt st (nthSample rnd st j)"
        using all_below[OF b] lt by (metis Suc_diff_Suc)
      ultimately show ?thesis unfolding None by simp
    next
      case (Some f)
      from IH[unfolded Some option.case]
      obtain j where j: "j < 200 - Suc k"
        and fc: "foodCell f = nthSample rnd st1 j"
        and pre: "\<forall>i < j. collisionAt st1 (nthSample rnd st1 i)"
        and free: "\<not> collisionAt st1 (foodCell f)"
        and ty: "ftype f = ty" "(subtype f = None \<longleftrightarrow> ty = Normal)"
        and st': "st' = st1\<lparr>randomCalls := randomCalls st', foods := foods st1 @ [f]\<rparr>"
        by (elim exE conjE)
      have "Suc j < 200 - k \<and> foodCell f = nthSample rnd st (Suc j)
              \<and> (\<forall>i < Suc j. collisionAt st (nthSample rnd st i))"
        using j fc all_below[OF pre] by (simp add: shift)
      then have "\<exists>j < 200 - k. foodCell f = nthSample rnd st j
                       \<and> (\<forall>i < j. collisionAt st (nthSample rnd st i))"
        by (rule exI[of _ "Suc j"])
      moreover have "\<not> collisionAt st (foodCell f)" using free by (simp add: coll)
      moreover have "st' = st\<lparr>randomCalls := randomCalls st', foods := foods st @ [f]\<rparr>"
        by (subst st') (simp add: st1_def)
      ultimately show ?thesis unfolding Some option.case using ty by simp
    qed
  qed
qed

lemma placeFood_cases:
  obtains
    (exhausted) "placeFood rnd ty st = (None, st\<lparr>randomCalls := randomCalls st + 400\<rparr>)"
      and "\<forall>j < 200. collisionAt st (nthSample rnd st j)"
  | (placed) f n where
      "placeFood rnd ty st = (Some f, st\<lparr>randomCalls := n, foods := foods st @ [f]\<rparr>)"
      and "\<exists>j < 200. foodCell f = nthSample rnd st j \<and> (\<forall>i < j. collisionAt st (nthSample rnd st i))"
      and "\<not> collisionAt st (foodCell f)" and "ftype f = ty"
      and "subtype f = None \<longleftrightarrow> ty = Normal"
proof -
  obtain r st' where p: "placeFoodFrom rnd ty 0 st = (r, st')"
    by (cases "placeFoodFrom rnd ty 0 st")
  note res = placeFoodFrom_result[OF p]
  show thesis
  proof (cases r)
    case None
    with res have "st' = st\<lparr>randomCalls := randomCalls st + 400\<rparr>"
      and "\<forall>j < 200. collisionAt st (nthSample rnd st j)" by simp_all
    with p None exhausted show thesis by (simp add: placeFood_def)
  next
    case (Some f)
    from res[unfolded Some option.case]
    have a: "\<exists>j < 200. foodCell f = nthSample rnd st j \<and> (\<forall>i < j. collisionAt st (nthSample rnd st i))"
      and b: "\<not> collisionAt st (foodCell f)" "ftype f = ty" "subtype f = None \<longleftrightarrow> ty = Normal"
      and c: "st' = st\<lparr>randomCalls := randomCalls st', foods := foods st @ [f]\<rparr>"
      by simp_all
    have "placeFood rnd ty st = (Some f, st\<lparr>randomCalls := randomCalls st', foods := foods st @ [f]\<rparr>)"
      using p Some c by (simp add: placeFood_def)
    from placed[OF this a b] show thesis .
  qed
qed

lemma nthSample_cong:
  "randomCalls st' = randomCalls st \<Longrightarrow> nthSample rnd st' j = nthSample rnd st j"
  by (simp add: nthSample_def randCell_def randomBelow_def mathRandom_def)

lemma nthSample_const0: "nthSample (\<lambda>k. 0) st j = (0, 0)"
  by (simp add: nthSample_def randCell_def randomBelow_def mathRandom_def)

text \<open>
  C9. \<open>placeFood\<close> draws cells with \<open>randCell\<close> and skips every cell that
  \<open>collisionAt\<close> reports, that is every cell of the player's or the AI's body.
  It returns either a food of the requested type on the first sampled cell that
  is free, appended to the food list, or, when all 200 sampled cells are
  occupied, \<open>None\<close>; then the food list is untouched and only the count of
  random calls has moved. The function always returns: no exception reaches the
  caller.
\<close>

theorem placeFood_result:
  "(case placeFood rnd ty st of
      (None, st') \<Rightarrow>
         st' = st\<lparr>randomCalls := randomCalls st + 400\<rparr>
       \<and> (\<forall>j < 200. collisionAt st (nthSample rnd st j))
    | (Some f, st') \<Rightarrow>
         (\<exists>j < 200. foodCell f = nthSample rnd st j
                  \<and> (\<forall>i < j. collisionAt st (nthSample rnd st i)))
       \<and> \<not> collisionAt st (foodCell f)
       \<and> ftype f = ty \<and> (subtype f = None \<longleftrightarrow> ty = Normal)
       \<and> st' = st\<lparr>randomCalls := randomCalls st', foods := foods st @ [f]\<rparr>)
   \<and> (\<forall>c. collisionAt st c \<longleftrightarrow> c \<in> bodyCells (playerSnake st) \<union> bodyCells (aiSnake st))"
proof -
  obtain r st' where p: "placeFoodFrom rnd ty 0 st = (r, st')"
    by (cases "placeFoodFrom rnd ty 0 st")
  from placeFoodFrom_result[OF p] show ?thesis
    by (cases r) (simp_all add: placeFood_def p collisionAt_iff)
qed

text \<open>
  With a random source that always yields 0 the sampled cell is always
  \<open>(0,0)\<close>: with the player on it all 200 attempts fail; with the player
  elsewhere the first attempt places the food.
\<close>

theorem placeFood_result_witness:
  "placeFood (\<lambda>k. 0) Normal (soloGame [(0,0),(1,0)])
     = (None, (soloGame [(0,0),(1,0)])\<lparr>randomCalls := 400\<rparr>)
   \<and> placeFood (\<lambda>k. 0) Special (soloGame [(5,5),(4,5)])
     = (Some (foodAt (0,0) Special (Some Bonus)),
        (soloGame [(5,5),(4,5)])\<lparr>randomCalls := 3, foods := [foodAt (0,0) Special (Some Bonus)]\<rparr>)"
proof
  let ?st = "soloGame [(0,0),(1,0)]"
  have c: "collisionAt ?st (0,0)"
    by (simp add: collisionAt_iff soloGame_def bodyCells_def makeSnake_def)
  have rc: "randomCalls ?st = 0" by (simp add: soloGame_def bootState_def)
  obtain r st' where p: "placeFood (\<lambda>k. 0) Normal ?st = (r, st')"
    by (cases "placeFood (\<lambda>k. 0) Normal ?st")
  have "r = None"
  proof (cases r)
    case (Some f)
    with placeFood_result[where rnd="\<lambda>k. 0" and ty=Normal and st="?st"] p c show ?thesis
      by (auto simp: nthSample_const0)
  qed simp
  with placeFood_result[where rnd="\<lambda>k. 0" and ty=Normal and st="?st"] p rc
  show "placeFood (\<lambda>k. 0) Normal ?st = (None, ?st\<lparr>randomCalls := 400\<rparr>)"
    by simp
next
  show "placeFood (\<lambda>k. 0) Special (soloGame [(5,5),(4,5)])
     = (Some (foodAt (0,0) Special (Some Bonus)),
        (soloGame [(5,5),(4,5)])\<lparr>randomCalls := 3, foods := [foodAt (0,0) Special (Some Bonus)]\<rparr>)"
    by (simp add: placeFood_def placeFoodFrom.simps[of _ _ 0] randCell_def randomBelow_def
          mathRandom_def collisionAt_iff soloGame_def bodyCells_def makeSnake_def bootState_def
          randomSpecialSubtype_def foodAt_def Let_def)
qed

subsection \<open>Normal food\<close>

text \<open>
  C6 (amended). Eating a normal food raises the eater's \<open>pendingGrow\<close> by 1,
  multiplies its \<open>speedMultiplier\<close> by 1.03, adds 1 to the score when the eater
  is the player, and sets \<open>speedBoost\<close> to \<open>max 0 (speedBoost - 2)\<close>. A
  replacement normal food is then placed in the same call on the first free
  cell among up to 200 sampled ones; when all 200 are occupied no replacement
  is added and the food list stays as it was.
\<close>

theorem consumeFood_normal:
  assumes "ftype fd = Normal" and "snakeOf eater st = Some s"
  shows "snakeOf eater (consumeFood rnd eater fd st) =
           Some (s\<lparr>pendingGrow := pendingGrow s + 1,
                   speedMultiplier := speedMultiplier s * 1.03\<rparr>)
       \<and> score (consumeFood rnd eater fd st) = (if eater = Player then score st + 1 else score st)
       \<and> speedBoost (consumeFood rnd eater fd st) = max 0 (speedBoost st - 2)
       \<and> ((foods (consumeFood rnd eater fd st) = foods st
             \<and> (\<forall>j < 200. collisionAt st (nthSample rnd st j)))
          \<or> (\<exists>f. foods (consumeFood rnd eater fd st) = foods st @ [f]
                 \<and> ftype f = Normal \<and> subtype f = None
                 \<and> \<not> collisionAt st (foodCell f)
                 \<and> (\<exists>j < 200. foodCell f = nthSample rnd st j
                        \<and> (\<forall>i < j. collisionAt st (nthSample rnd st i)))))"
proof -
  define st4 where "st4 =
     (let st1 = updSnake eater (\<lambda>s. s\<lparr>pendingGrow := pendingGrow s + 1\<rparr>) st;
          st2 = (if eater = Player then st1\<lparr>score := score st1 + SCORE_PER_FOOD\<rparr> else st1);
          st3 = updSnake eater (\<lambda>s. s\<lparr>speedMultiplier := speedMultiplier s * 1.03\<rparr>) st2
      in st3\<lparr>speedBoost := max 0 (speedBoost st3 - 2)\<rparr>)"
  have cf: "consumeFood rnd eater fd st = snd (placeFood rnd Normal st4)"
    using assms(1) by (simp add: consumeFood_def st4_def Let_def)
  have sn: "snakeOf eater st4 = Some (s\<lparr>pendingGrow := pendingGrow s + 1,
                                         speedMultiplier := speedMultiplier s * 1.03\<rparr>)"
    using assms(2) by (cases eater) (simp_all add: st4_def updSnake_def snakeOf_def setSnake_def)
  have sc: "score st4 = (if eater = Player then score st + 1 else score st)"
    using assms(2)
    by (cases eater) (simp_all add: st4_def updSnake_def snakeOf_def setSnake_def SCORE_PER_FOOD_def)
  have sb: "speedBoost st4 = max 0 (speedBoost st - 2)"
    using assms(2) by (cases eater) (simp_all add: st4_def updSnake_def snakeOf_def setSnake_def)
  have fo: "foods st4 = foods st" and rc: "randomCalls st4 = randomCalls st"
    using assms(2) by (cases eater; simp add: st4_def updSnake_def snakeOf_def setSnake_def)+
  have co: "collisionAt st4 c = collisionAt st c" for c
    using assms(2)
    by (cases eater)
       (simp_all add: collisionAt_iff bodyCells_def st4_def updSnake_def snakeOf_def setSnake_def)
  note ns = nthSample_cong[OF rc]
  show ?thesis
  proof (cases rule: placeFood_cases[of rnd Normal st4])
    case exhausted
    then show ?thesis unfolding cf by (simp add: sn sc sb fo co ns)
  next
    case (placed f n)
    have "foods (snd (placeFood rnd Normal st4)) = foods st @ [f]"
      using placed(1) by (simp add: fo)
    moreover have "ftype f = Normal \<and> subtype f = None \<and> \<not> collisionAt st (foodCell f)
                 \<and> (\<exists>j < 200. foodCell f = nthSample rnd st j
                        \<and> (\<forall>i < j. collisionAt st (nthSample rnd st i)))"
      using placed(2-5) by (simp add: co ns)
    ultimately have "\<exists>f. foods (snd (placeFood rnd Normal st4)) = foods st @ [f]
                 \<and> ftype f = Normal \<and> subtype f = None
                 \<and> \<not> collisionAt st (foodCell f)
                 \<and> (\<exists>j < 200. foodCell f = nthSample rnd st j
                        \<and> (\<forall>i < j. collisionAt st (nthSample rnd st i)))"
      by (intro exI[of _ f] conjI) simp_all
    then show ?thesis unfolding cf using placed(1) by (simp add: sn sc sb)
  qed
qed

text \<open>
  With a random source that always yields 0 and the cell \<open>(0,0)\<close> free, the
  replacement food lands on \<open>(0,0)\<close>.
\<close>

theorem consumeFood_normal_witness:
  "ftype (foodAt (5,5) Normal None) = Normal
   \<and> snakeOf Player ((soloGame [(5,5),(4,5),(3,5)])\<lparr>foods := [foodAt (5,5) Normal None]\<rparr>)
       = Some (makeSnake [(5,5),(4,5),(3,5)] ''#00e0ff'')
   \<and> snakeOf Player (consumeFood (\<lambda>k. 0) Player (foodAt (5,5) Normal None)
        ((soloGame [(5,5),(4,5),(3,5)])\<lparr>foods := [foodAt (5,5) Normal None]\<rparr>))
       = Some ((makeSnake [(5,5),(4,5),(3,5)] ''#00e0ff'')\<lparr>pendingGrow := 1, speedMultiplier := 1.03\<rparr>)
   \<and> score (consumeFood (\<lambda>k. 0) Player (foodAt (5,5) Normal None)
        ((soloGame [(5,5),(4,5),(3,5)])\<lparr>foods := [foodAt (5,5) Normal None]\<rparr>)) = 1
   \<and> foods (consumeFood (\<lambda>k. 0) Player (foodAt (5,5) Normal None)
        ((soloGame [(5,5),(4,5),(3,5)])\<lparr>foods := [foodAt (5,5) Normal None]\<rparr>))
       = [foodAt (5,5) Normal None, foodAt (0,0) Normal None]"
  using consumeFood_normal[of "foodAt (5,5) Normal None" Player
          "(soloGame [(5,5),(4,5),(3,5)])\<lparr>foods := [foodAt (5,5) Normal None]\<rparr>"
          "makeSnake [(5,5),(4,5),(3,5)] ''#00e0ff''" "\<lambda>k. 0"]
  by (simp add: consumeFood_def updSnake_def snakeOf_def setSnake_def soloGame_def
        bootState_def makeSnake_def foodAt_def Let_def SCORE_PER_FOOD_def
        placeFood_def placeFoodFrom.simps[of _ _ 0] randCell_def randomBelow_def
        mathRandom_def collisionAt_iff bodyCells_def)

text \<open>
  The claim as first stated, that a replacement is always spawned, fails when
  \<open>placeFood\<close> runs out of attempts: with the player's head on \<open>(0,0)\<close> and a
  random source that always yields 0 the food list after the meal holds no new
  food.
\<close>

theorem consumeFood_normal_counterexample:
  "foods (consumeFood (\<lambda>k. 0) Player (foodAt (0,0) Normal None)
            ((soloGame [(0,0),(1,0),(2,0)])\<lparr>foods := [foodAt (0,0) Normal None]\<rparr>))
   = [foodAt (0,0) Normal None]"
proof -
  let ?st = "(soloGame [(0,0),(1,0),(2,0)])\<lparr>foods := [foodAt (0,0) Normal None]\<rparr>"
  define st4 where "st4 = ?st\<lparr>playerSnake := Some ((makeSnake [(0,0),(1,0),(2,0)] ''#00e0ff'')
                                  \<lparr>pendingGrow := 1, speedMultiplier := 1.03\<rparr>),
                            score := 1, speedBoost := 0\<rparr>"
  have cf: "consumeFood (\<lambda>k. 0) Player (foodAt (0,0) Normal None) ?st
              = snd (placeFood (\<lambda>k. 0) Normal st4)"
    by (simp add: consumeFood_def updSnake_def snakeOf_def setSnake_def soloGame_def
          bootState_def makeSnake_def foodAt_def Let_def SCORE_PER_FOOD_def st4_def)
  have c: "collisionAt st4 (0,0)"
    by (simp add: collisionAt_iff st4_def bodyCells_def makeSnake_def)
  have "foods (snd (placeFood (\<lambda>k. 0) Normal st4)) = foods st4"
  proof (cases rule: placeFood_cases[of "\<lambda>k. 0" Normal st4])
    case exhausted
    then show ?thesis by simp
  next
    case (placed f n)
    with c show ?thesis by (auto simp: nthSample_const0)
  qed
  then show ?thesis unfolding cf by (simp add: st4_def)
qed

subsection \<open>What the effects leave alone\<close>

lemma placeFood_frame [simp]:
  "playerSnake (snd (placeFood rnd ty st)) = playerSnake st"
  "aiSnake (snd (placeFood rnd ty st)) = aiSnake st"
  "speedBoost (snd (placeFood rnd ty st)) = speedBoost st"
  "score (snd (placeFood rnd ty st)) = score st"
  "mode (snd (placeFood rnd ty st)) = mode st"
  "running (snd (placeFood rnd ty st)) = running st"
  "tickInterval (snd (placeFood rnd ty st)) = tickInterval st"
  "gameOverPanel (snd (placeFood rnd ty st)) = gameOverPanel st"
  by (cases rule: placeFood_cases[of rnd ty st]; simp)+

lemma placeFood_foods:
  "\<exists>sp. foods (snd (placeFood rnd ty st)) = foods st @ sp \<and> length sp \<le> 1
        \<and> (\<forall>f \<in> set sp. ftype f = ty)"
proof (cases rule: placeFood_cases[of rnd ty st])
  case exhausted
  then show ?thesis by simp
next
  case (placed f n)
  then have "foods (snd (placeFood rnd ty st)) = foods st @ [f] \<and> length [f] \<le> 1
        \<and> (\<forall>g \<in> set [f]. ftype g = ty)" by simp
  then show ?thesis by (rule exI[of _ "[f]"])
qed

lemma updSnake_frame [simp]:
  "foods (updSnake w f st) = foods st"
  "speedBoost (updSnake w f st) = speedBoost st"
  "score (updSnake w f st) = score st"
  "mode (updSnake w f st) = mode st"
  "running (updSnake w f st) = running st"
  "snakeOf (opponent w) (updSnake w f st) = snakeOf (opponent w) st"
  "snakeOf w (updSnake w f st) = map_option f (snakeOf w st)"
  by (cases w; simp add: updSnake_def snakeOf_def setSnake_def opponent_def split: option.splits)+

lemma opponent_simps [simp]: "opponent Player = AI" "opponent AI = Player"
  by (simp_all add: opponent_def)

lemma snakeOf_simps [simp]: "snakeOf Player st = playerSnake st" "snakeOf AI st = aiSnake st"
  by (simp_all add: snakeOf_def)

lemma consumeFood_other:
  "snakeOf (opponent w) (consumeFood rnd w fd st) = snakeOf (opponent w) st"
  using updSnake_frame(6)[of w]
  by (cases w)
     (simp_all add: consumeFood_def Let_def split: option.splits subtype.splits)

lemma consumeFood_foods:
  "\<exists>sp. foods (consumeFood rnd w fd st) = foods st @ sp \<and> length sp \<le> 1
        \<and> (\<forall>f \<in> set sp. ftype f = Normal)"
proof (cases "ftype fd = Normal")
  case True
  define st4 where "st4 =
     (let st1 = updSnake w (\<lambda>s. s\<lparr>pendingGrow := pendingGrow s + 1\<rparr>) st;
          st2 = (if w = Player then st1\<lparr>score := score st1 + SCORE_PER_FOOD\<rparr> else st1);
          st3 = updSnake w (\<lambda>s. s\<lparr>speedMultiplier := speedMultiplier s * 1.03\<rparr>) st2
      in st3\<lparr>speedBoost := max 0 (speedBoost st3 - 2)\<rparr>)"
  have "consumeFood rnd w fd st = snd (placeFood rnd Normal st4)"
    using True by (simp add: consumeFood_def st4_def Let_def)
  moreover have "foods st4 = foods st" by (simp add: st4_def Let_def)
  ultimately show ?thesis using placeFood_foods[of rnd Normal st4] by simp
next
  case False
  then have "foods (consumeFood rnd w fd st) = foods st"
    by (simp add: consumeFood_def Let_def split: option.splits subtype.splits)
  then show ?thesis by simp
qed

lemma onPlayerDie_frame [simp]:
  "playerSnake (onPlayerDie x st) = playerSnake st"
  "aiSnake (onPlayerDie x st) = aiSnake st"
  "foods (onPlayerDie x st) = foods st"
  "speedBoost (onPlayerDie x st) = speedBoost st"
  "score (onPlayerDie x st) = score st"
  "mode (onPlayerDie x st) = mode st"
  by (simp_all add: onPlayerDie_def stopTick_def showGameOver_def
        split: option.splits gameMode.splits)

subsection \<open>Two heads on one food\<close>

text \<open>
  C7. When the player's head and the live AI's head are both on the cell of the
  food at index \<open>i\<close>, the scan's iteration at \<open>i\<close> lets the player consume it
  (the player is tested first) and goes on below \<open>i\<close>: the AI snake is left as
  it was, and the food list loses exactly the entry at \<open>i\<close>, once, gaining at
  most the replacement that a normal food spawns at its end.
\<close>

theorem foodScan_tie:
  assumes "i < length (foods st)" and "playerSnake st = Some p" and "headOf p = Some c"
    and "aiSnake st = Some a" and "alive a" and "headOf a = Some c"
    and "foodCell (foods st ! i) = c"
  shows "foodScan rnd (Suc i) st =
           foodScan rnd i (spliceFood i (consumeFood rnd Player (foods st ! i) st))
       \<and> aiSnake (spliceFood i (consumeFood rnd Player (foods st ! i) st)) = Some a
       \<and> (\<exists>sp. foods (spliceFood i (consumeFood rnd Player (foods st ! i) st))
                 = take i (foods st) @ drop (Suc i) (foods st) @ sp
              \<and> length sp \<le> 1 \<and> (\<forall>f \<in> set sp. ftype f = Normal))"
proof -
  let ?f = "foods st ! i"
  have 1: "foodScan rnd (Suc i) st = foodScan rnd i (spliceFood i (consumeFood rnd Player ?f st))"
    using assms by (simp add: Let_def)
  have 2: "aiSnake (spliceFood i (consumeFood rnd Player ?f st)) = Some a"
    using consumeFood_other[of Player rnd ?f st] assms(4) by (simp add: spliceFood_def)
  obtain sp where sp: "foods (consumeFood rnd Player ?f st) = foods st @ sp"
      "length sp \<le> 1" "\<forall>f \<in> set sp. ftype f = Normal"
    using consumeFood_foods[of rnd Player ?f st] by (elim exE conjE)
  have "foods (spliceFood i (consumeFood rnd Player ?f st))
          = take i (foods st) @ drop (Suc i) (foods st) @ sp"
    using assms(1) by (simp add: spliceFood_def sp(1))
  with sp(2,3) have 3: "\<exists>sp. foods (spliceFood i (consumeFood rnd Player ?f st))
                 = take i (foods st) @ drop (Suc i) (foods st) @ sp
              \<and> length sp \<le> 1 \<and> (\<forall>f \<in> set sp. ftype f = Normal)"
    by (intro exI[of _ sp] conjI)
  from 1 2 3 show ?thesis by (intro conjI)
qed

text \<open>
  Both heads on \<open>(5,5)\<close> with one normal food there: the player grows and
  scores, the AI snake is unchanged, and the food is replaced by the new one.
\<close>

theorem foodScan_tie_witness:
  "0 < length (foods ((duelGame [(5,5),(4,5)] [(5,5),(6,5)])\<lparr>foods := [foodAt (5,5) Normal None]\<rparr>))
   \<and> headOf (makeSnake [(5,5),(4,5)] ''#00e0ff'') = Some (5,5)
   \<and> headOf ((makeSnake [(5,5),(6,5)] ''#ff8b4b'')\<lparr>difficulty := Some Hard\<rparr>) = Some (5,5)
   \<and> foodCell (foodAt (5,5) Normal None) = (5,5)
   \<and> handleFoodCollisions (\<lambda>k. 0)
        ((duelGame [(5,5),(4,5)] [(5,5),(6,5)])\<lparr>foods := [foodAt (5,5) Normal None]\<rparr>)
      = Done ((duelGame [(5,5),(4,5)] [(5,5),(6,5)])
               \<lparr>playerSnake := Some ((makeSnake [(5,5),(4,5)] ''#00e0ff'')
                                       \<lparr>pendingGrow := 1, speedMultiplier := 1.03\<rparr>),
                score := 1, randomCalls := 2, foods := [foodAt (0,0) Normal None]\<rparr>)"
  using foodScan_tie[of 0 "(duelGame [(5,5),(4,5)] [(5,5),(6,5)])\<lparr>foods := [foodAt (5,5) Normal None]\<rparr>"
          "makeSnake [(5,5),(4,5)] ''#00e0ff''" "(5,5)"
          "(makeSnake [(5,5),(6,5)] ''#ff8b4b'')\<lparr>difficulty := Some Hard\<rparr>" "\<lambda>k. 0"]
  by (simp add: handleFoodCollisions_def duelGame_def headOf_def foodCell_def
        consumeFood_def updSnake_def setSnake_def spliceFood_def
        bootState_def makeSnake_def foodAt_def Let_def SCORE_PER_FOOD_def
        placeFood_def placeFoodFrom.simps[of _ _ 0] randCell_def randomBelow_def
        mathRandom_def collisionAt_iff bodyCells_def)

subsection \<open>Self-collision\<close>

lemma dies_idem: "dies w (dies w st) = dies w st"
  by (cases w; cases "mode st")
     (auto simp: dies_def onPlayerDie_def stopTick_def showGameOver_def setSnake_def diedOf_def
        split: option.splits gameMode.splits)

lemma hitLoop_eq: "hitLoop w h segs st = (if h \<in> set segs then dies w st else st)"
proof (induction segs arbitrary: st)
  case Nil
  show ?case by (simp add: hitLoop_def)
next
  case (Cons x xs)
  have "hitLoop w h (x # xs) st = hitLoop w h xs (if h = x then dies w st else st)"
    by (simp add: hitLoop_def)
  then show ?case by (simp add: Cons.IH dies_idem)
qed

lemma noRevival_refl [simp]: "noRevival st st"
  by (simp add: noRevival_def)

lemma noRevival_trans: "noRevival a b \<Longrightarrow> noRevival b c \<Longrightarrow> noRevival a c"
  unfolding noRevival_def by blast

lemma panel_onPlayerDie:
  "gameOverPanel st \<noteq> None \<or> mode st \<noteq> None \<Longrightarrow> gameOverPanel (onPlayerDie x st) \<noteq> None"
  by (auto simp: onPlayerDie_def stopTick_def showGameOver_def split: option.splits gameMode.splits)

lemma panel_updSnake [simp]: "gameOverPanel (updSnake w f st) = gameOverPanel st"
  by (cases w) (simp_all add: updSnake_def setSnake_def split: option.splits)

lemma noRevival_onPlayerDie: "noRevival st (onPlayerDie x st)"
  by (simp add: noRevival_def isAlive_def panel_onPlayerDie)

lemma noRevival_kill: "noRevival st (updSnake w (\<lambda>s. s\<lparr>alive := False\<rparr>) st)"
  unfolding noRevival_def
proof (intro conjI allI impI)
  fix v assume "isAlive v (updSnake w (\<lambda>s. s\<lparr>alive := False\<rparr>) st)"
  then show "isAlive v st"
    by (cases v; cases w) (auto simp: isAlive_def updSnake_def setSnake_def split: option.splits)
qed simp_all

lemma noRevival_dies: "noRevival st (dies w st)"
proof (cases "snakeOf w st")
  case None
  then show ?thesis by (simp add: dies_def)
next
  case (Some s)
  then have "dies w st = onPlayerDie (diedOf w) (updSnake w (\<lambda>s. s\<lparr>alive := False\<rparr>) st)"
    by (simp add: dies_def updSnake_def)
  then show ?thesis
    using noRevival_trans[OF noRevival_kill noRevival_onPlayerDie] by simp
qed

lemma noRevival_hitLoop: "noRevival st (hitLoop w h segs st)"
  by (simp add: hitLoop_eq noRevival_dies)

lemma noRevival_selfCollision: "noRevival st (selfCollision w b st)"
  by (cases b) (simp_all add: selfCollision_def noRevival_hitLoop)

lemma noRevival_headInto: "noRevival st (final (headInto w mine others st))"
  by (cases others; cases mine) (simp_all add: headInto_def noRevival_hitLoop)

lemma noRevival_headToHead: "noRevival st (final (headToHead bp ba st))"
  using noRevival_trans[OF noRevival_trans[OF noRevival_kill noRevival_kill] noRevival_onPlayerDie]
  by (cases bp; cases ba) (simp_all add: headToHead_def)

lemma noRevival_andThen:
  assumes "noRevival st (final r)" and "\<And>s. noRevival s (final (f s))"
  shows "noRevival st (final (andThen r f))"
proof (cases r)
  case (Done s)
  with assms(1) assms(2)[of s] show ?thesis
    by (auto simp: andThen_def intro: noRevival_trans)
next
  case (TypeError s)
  with assms(1) show ?thesis by (simp add: andThen_def)
qed

lemma noRevival_tail:
  "noRevival st2 (final (andThen (headToHead bp ba st2)
                   (\<lambda>st3. andThen
                       (if isAlive Player st3 then headInto Player bp ba st3 else Done st3)
                       (\<lambda>st4. if isAlive AI st4 then headInto AI ba bp st4 else Done st4))))"
  by (intro noRevival_andThen noRevival_headToHead) (simp_all add: noRevival_headInto)

lemma dies_dead: "snakeOf w st = Some s \<Longrightarrow> \<not> isAlive w (dies w st) \<and> \<not> running (dies w st)"
  by (cases w) (simp_all add: dies_def isAlive_def setSnake_def)

lemma dies_mode [simp]: "mode (dies w st) = mode st"
  by (cases w) (simp_all add: dies_def setSnake_def split: option.splits)

lemma dies_panel:
  "snakeOf w st = Some s \<Longrightarrow> mode st \<noteq> None \<Longrightarrow> gameOverPanel (dies w st) \<noteq> None"
  by (cases w) (simp_all add: dies_def setSnake_def panel_onPlayerDie)

lemma dies_Player_ai [simp]: "aiSnake (dies Player st) = aiSnake st"
  by (simp add: dies_def setSnake_def split: option.splits)

text \<open>
  Against the AI the collision checks throw as well when the player's body is
  empty: the head-to-head test reads the missing head.
\<close>

lemma headless_collision_throws:
  assumes "playerSnake st = Some p" and "alive p" and "body p = []"
    and "aiSnake st = Some a" and "alive a" and "body a = ha # ra" and "ha \<notin> set ra"
  shows "handleCollisionsSingleMode st = TypeError st"
  using assms
  by (simp add: handleCollisionsSingleMode_def selfCollision_def hitLoop_eq headToHead_def
        isAlive_def andThen_def Let_def)

text \<open>
  C1 (amended). A live snake whose head equals one of its own later segments
  is dead after the collision checks, the tick timer is stopped and, once a
  mode is chosen, a game-over notice is on the panel; this holds for the
  player and for the AI snake, also when a later check of the same call
  throws. In a game against the AI a later check of the same call may put
  another notice on the panel. In a single-player game the checks do exactly
  this: if the head is among the later segments the player is marked dead and
  \<open>onPlayerDie\<close> runs, otherwise nothing changes. The script records no cause
  of death.
\<close>

theorem selfCollision_dies:
  assumes "playerSnake st = Some p" and "snakeOf w st = Some s" and "alive s"
    and "body s = h # rest"
  shows "(h \<in> set rest \<longrightarrow>
            \<not> isAlive w (final (handleCollisionsSingleMode st))
          \<and> \<not> running (final (handleCollisionsSingleMode st))
          \<and> (mode st \<noteq> None \<longrightarrow>
                gameOverPanel (final (handleCollisionsSingleMode st)) \<noteq> None))
       \<and> (aiSnake st = None \<longrightarrow>
            handleCollisionsSingleMode st =
              Done (if h \<in> set rest
                    then onPlayerDie PlayerDied (st\<lparr>playerSnake := Some (p\<lparr>alive := False\<rparr>)\<rparr>)
                    else st))"
proof (intro conjI impI)
  assume ai: "aiSnake st = None"
  with assms have w: "w = Player" and s: "s = p" by (cases w; simp)+
  have d: "dies Player st = onPlayerDie PlayerDied (st\<lparr>playerSnake := Some (p\<lparr>alive := False\<rparr>)\<rparr>)"
    using assms(1) by (simp add: dies_def setSnake_def diedOf_def)
  have "aiSnake (dies Player st) = None" using ai by simp
  then show "handleCollisionsSingleMode st =
              Done (if h \<in> set rest
                    then onPlayerDie PlayerDied (st\<lparr>playerSnake := Some (p\<lparr>alive := False\<rparr>)\<rparr>)
                    else st)"
    using assms ai s
    by (simp add: handleCollisionsSingleMode_def selfCollision_def hitLoop_eq Let_def d[symmetric])
next
  assume hit: "h \<in> set rest"
  define st1 where "st1 = (if alive p then selfCollision Player (body p) st else st)"
  have ai1: "aiSnake st1 = aiSnake st"
    by (cases "body p") (simp_all add: st1_def selfCollision_def hitLoop_eq)
  have r1: "noRevival st st1" by (simp add: st1_def noRevival_selfCollision)
  have m1: "mode st1 = mode st"
    by (cases "body p") (simp_all add: st1_def selfCollision_def hitLoop_eq)
  have dead: "\<not> isAlive w (final (handleCollisionsSingleMode st))
            \<and> \<not> running (final (handleCollisionsSingleMode st))
            \<and> (mode st \<noteq> None \<longrightarrow>
                  gameOverPanel (final (handleCollisionsSingleMode st)) \<noteq> None)"
  proof (cases w)
    case Player
    with assms have s: "s = p" by simp
    have st1: "st1 = dies Player st"
      using assms hit s by (simp add: st1_def selfCollision_def hitLoop_eq)
    have d1: "\<not> isAlive Player st1 \<and> \<not> running st1
              \<and> (mode st \<noteq> None \<longrightarrow> gameOverPanel st1 \<noteq> None)"
      unfolding st1 using dies_dead[of Player st p] dies_panel[of Player st p] assms(1) by simp
    have "noRevival st1 (final (handleCollisionsSingleMode st))"
    proof (cases "aiSnake st1")
      case None
      with assms(1) show ?thesis
        by (simp add: handleCollisionsSingleMode_def st1_def Let_def)
    next
      case (Some a)
      with assms(1) noRevival_trans[OF noRevival_selfCollision noRevival_tail] show ?thesis
        by (simp add: handleCollisionsSingleMode_def st1_def[symmetric] Let_def)
    qed
    with d1 Player show ?thesis by (auto simp: noRevival_def)
  next
    case AI
    with assms have a: "aiSnake st = Some s" by simp
    define st2 where "st2 = selfCollision AI (body s) st1"
    have "st2 = dies AI st1"
      using assms hit by (simp add: st2_def selfCollision_def hitLoop_eq)
    then have d2: "\<not> isAlive AI st2 \<and> \<not> running st2
              \<and> (mode st \<noteq> None \<longrightarrow> gameOverPanel st2 \<noteq> None)"
      using dies_dead[of AI st1 s] dies_panel[of AI st1 s] a ai1 m1 by simp
    have "handleCollisionsSingleMode st =
            andThen (headToHead (body p) (body s) st2)
                   (\<lambda>st3. andThen
                       (if isAlive Player st3 then headInto Player (body p) (body s) st3 else Done st3)
                       (\<lambda>st4. if isAlive AI st4 then headInto AI (body s) (body p) st4 else Done st4))"
      using assms(1,3) a ai1
      by (simp add: handleCollisionsSingleMode_def st1_def[symmetric] st2_def Let_def)
    with noRevival_tail[of st2 "body p" "body s"]
    have "noRevival st2 (final (handleCollisionsSingleMode st))" by simp
    with d2 AI show ?thesis by (auto simp: noRevival_def)
  qed
  from dead show "\<not> isAlive w (final (handleCollisionsSingleMode st))" by simp
  from dead show "\<not> running (final (handleCollisionsSingleMode st))" by simp
  from dead show "mode st \<noteq> None \<Longrightarrow>
      gameOverPanel (final (handleCollisionsSingleMode st)) \<noteq> None" by simp
qed

text \<open>A body whose head returns to an earlier cell: the player dies.\<close>

theorem selfCollision_dies_witness:
  "playerSnake (soloGame [(10,10),(10,11),(10,10)]) = Some (makeSnake [(10,10),(10,11),(10,10)] ''#00e0ff'')
   \<and> alive (makeSnake [(10,10),(10,11),(10,10)] ''#00e0ff'')
   \<and> (10,10) \<in> set [(10,11),(10,10::int)]
   \<and> aiSnake (soloGame [(10,10),(10,11),(10,10)]) = None
   \<and> handleCollisionsSingleMode (soloGame [(10,10),(10,11),(10,10)])
       = Done ((soloGame [(10,10),(10,11),(10,10)])
                \<lparr>running := False,
                 playerSnake := Some ((makeSnake [(10,10),(10,11),(10,10)] ''#00e0ff'')\<lparr>alive := False\<rparr>),
                 gameOverPanel := Some (GameOverMsg 0)\<rparr>)"
  using selfCollision_dies[of "soloGame [(10,10),(10,11),(10,10)]"
          "makeSnake [(10,10),(10,11),(10,10)] ''#00e0ff''" Player
          "makeSnake [(10,10),(10,11),(10,10)] ''#00e0ff''" "(10,10)" "[(10,11),(10,10)]"]
  by (simp add: soloGame_def makeSnake_def bootState_def onPlayerDie_def stopTick_def
        showGameOver_def)

text \<open>
  Against the AI, when both snakes bite themselves in the same tick, the
  player's notice is replaced by the AI's.
\<close>

lemma notice_overwritten:
  "handleCollisionsSingleMode (duelGame [(10,10),(10,11),(10,10)] [(2,2),(2,3),(2,2)])
     = Done ((duelGame [(10,10),(10,11),(10,10)] [(2,2),(2,3),(2,2)])
              \<lparr>running := False,
               playerSnake := Some ((makeSnake [(10,10),(10,11),(10,10)] ''#00e0ff'')\<lparr>alive := False\<rparr>),
               aiSnake := Some ((makeSnake [(2,2),(2,3),(2,2)] ''#ff8b4b'')
                                  \<lparr>alive := False, difficulty := Some Hard\<rparr>),
               gameOverPanel := Some (AIDiedMsg 0)\<rparr>)"
  by (simp add: handleCollisionsSingleMode_def selfCollision_def hitLoop_eq dies_def
        headToHead_def isAlive_def andThen_def setSnake_def diedOf_def
        duelGame_def makeSnake_def bootState_def onPlayerDie_def stopTick_def
        showGameOver_def Let_def)

text \<open>
  The body \<open>[(10,10),(10,11),(10,9)]\<close> of the claim as first stated has no
  segment on the head's cell \<open>(10,10)\<close>: the checks change nothing and the
  player stays alive.
\<close>

theorem selfCollision_counterexample:
  "handleCollisionsSingleMode (soloGame [(10,10),(10,11),(10,9)])
     = Done (soloGame [(10,10),(10,11),(10,9)])
   \<and> map_option alive (playerSnake (soloGame [(10,10),(10,11),(10,9)])) = Some True"
  by (simp add: handleCollisionsSingleMode_def selfCollision_def hitLoop_def
        soloGame_def makeSnake_def bootState_def Let_def)

subsection \<open>What every operation preserves\<close>

lemma steady_refl [simp]: "steady st st"
  by (simp add: steady_def)

lemma steady_trans: "steady a b \<Longrightarrow> steady b c \<Longrightarrow> steady a c"
  unfolding steady_def by (meson order_trans)

lemma steady_same:
  "speedBoost st' = speedBoost st \<Longrightarrow> foods st' = foods st \<Longrightarrow>
   playerSnake st' = playerSnake st \<Longrightarrow> aiSnake st' = aiSnake st \<Longrightarrow> steady st st'"
  by (simp add: steady_def specials_def allCells_def)

lemma steady_andThen:
  assumes "steady st (final r)" and "\<And>s. steady s (final (f s))"
  shows "steady st (final (andThen r f))"
proof (cases r)
  case (Done s)
  with assms(1) assms(2)[of s] show ?thesis
    by (auto simp: andThen_def intro: steady_trans)
next
  case (TypeError s)
  with assms(1) show ?thesis by (simp add: andThen_def)
qed

lemma steady_onPlayerDie: "steady st (onPlayerDie x st)"
  by (rule steady_same) simp_all

text \<open>An update of one snake that puts it on old cells or grid cells only.\<close>

lemma steady_updSnake:
  assumes "\<And>s. \<forall>c \<in> set (body (f s)). insideGrid c \<or> c \<in> set (body s)"
  shows "steady st (updSnake w f st)"
  unfolding steady_def
proof (intro conjI ballI)
  fix c assume "c \<in> allCells (updSnake w f st)"
  then show "insideGrid c \<or> c \<in> allCells st"
    using assms
    by (cases w)
       (auto simp: allCells_def bodyCells_def updSnake_def setSnake_def split: option.splits)
qed (simp_all add: specials_def)

lemma dies_updSnake:
  "dies w st = (case snakeOf w st of None \<Rightarrow> st
                | Some s \<Rightarrow> onPlayerDie (diedOf w) (updSnake w (\<lambda>s. s\<lparr>alive := False\<rparr>) st))"
  by (cases w) (simp_all add: dies_def updSnake_def split: option.splits)

lemma steady_dies: "steady st (dies w st)"
  unfolding dies_updSnake
  by (auto split: option.splits intro!: steady_trans[OF steady_updSnake steady_onPlayerDie])

lemma steady_stepSnake: "steady st (stepSnake w d st)"
proof (cases "snakeOf w st")
  case None
  then show ?thesis by (cases w) (simp_all add: stepSnake_def)
next
  case (Some s)
  show ?thesis
  proof (cases "alive s \<and> body s \<noteq> [] \<and> insideGrid (offset d (hd (body s)))")
    case False
    with Some show ?thesis
      by (cases w; cases "body s") (simp_all add: stepSnake_def steady_dies Let_def)
  next
    case True
    then obtain h rest where b: "body s = h # rest" by (cases "body s") auto
    have "stepSnake w d st = updSnake w (\<lambda>s.
             if pendingGrow s > 0
              then s\<lparr>body := offset d h # body s, pendingGrow := pendingGrow s - 1\<rparr>
              else s\<lparr>body := offset d h # butlast (body s)\<rparr>) st"
      using Some True b by (cases w) (simp_all add: stepSnake_def updSnake_def Let_def)
    moreover have "steady st (updSnake w (\<lambda>s.
             if pendingGrow s > 0
              then s\<lparr>body := offset d h # body s, pendingGrow := pendingGrow s - 1\<rparr>
              else s\<lparr>body := offset d h # butlast (body s)\<rparr>) st)"
      using True b by (intro steady_updSnake) (auto dest: in_set_butlastD)
    ultimately show ?thesis by simp
  qed
qed

lemma steady_foods:
  "speedBoost st' = speedBoost st \<Longrightarrow> specials st' \<le> specials st \<Longrightarrow>
   playerSnake st' = playerSnake st \<Longrightarrow> aiSnake st' = aiSnake st \<Longrightarrow> steady st st'"
  by (simp add: steady_def allCells_def)

lemma specials_placeFood:
  "specials (snd (placeFood rnd ty st)) =
     specials st + (case fst (placeFood rnd ty st) of None \<Rightarrow> 0
                    | Some f \<Rightarrow> if ty = Special then 1 else 0)"
  by (cases rule: placeFood_cases[of rnd ty st]) (simp_all add: specials_def)

lemma steady_placeFood_Normal: "steady st (snd (placeFood rnd Normal st))"
  by (rule steady_foods) (simp_all add: specials_placeFood split: option.splits)

lemma steady_speedBoost:
  "0 \<le> b \<Longrightarrow> b \<le> speedBoost st \<or> (speedBoost st < 0) \<Longrightarrow> steady st (st\<lparr>speedBoost := b\<rparr>)"
  by (auto simp add: steady_def specials_def allCells_def)

lemma steady_score [simp]: "steady st (st\<lparr>score := x\<rparr>)"
  by (rule steady_same) simp_all

lemma steady_consumeFood: "steady st (consumeFood rnd w fd st)"
proof (cases "ftype fd = Normal")
  case True
  define st1 where "st1 = updSnake w (\<lambda>s. s\<lparr>pendingGrow := pendingGrow s + 1\<rparr>) st"
  define st2 where "st2 = (if w = Player then st1\<lparr>score := score st1 + SCORE_PER_FOOD\<rparr> else st1)"
  define st3 where "st3 = updSnake w (\<lambda>s. s\<lparr>speedMultiplier := speedMultiplier s * 1.03\<rparr>) st2"
  define st4 where "st4 = st3\<lparr>speedBoost := max 0 (speedBoost st3 - 2)\<rparr>"
  have "steady st st1" unfolding st1_def by (rule steady_updSnake) simp
  moreover have "steady st1 st2" by (simp add: st2_def)
  moreover have "steady st2 st3" unfolding st3_def by (rule steady_updSnake) simp
  moreover have "steady st3 st4" unfolding st4_def by (rule steady_speedBoost) auto
  moreover have "steady st4 (snd (placeFood rnd Normal st4))" by (rule steady_placeFood_Normal)
  moreover have "consumeFood rnd w fd st = snd (placeFood rnd Normal st4)"
    using True by (simp add: consumeFood_def Let_def st1_def st2_def st3_def st4_def)
  ultimately show ?thesis by (metis steady_trans)
next
  case False
  show ?thesis
  proof (cases "subtype fd")
    case None
    with False show ?thesis by (simp add: consumeFood_def)
  next
    case (Some sub)
    show ?thesis
    proof (cases sub)
      case Bonus
      have "steady st (updSnake w (\<lambda>s. s\<lparr>pendingGrow := pendingGrow s + 2\<rparr>)
                (if w = Player then st\<lparr>score := score st + 5\<rparr> else st))"
        by (rule steady_trans[OF _ steady_updSnake]) simp_all
      with False Some Bonus show ?thesis by (simp add: consumeFood_def Let_def)
    next
      case Slow
      have "steady st (st\<lparr>tickInterval := min 400 (tickInterval st + 120),
                slowTimeouts := Suc (slowTimeouts st)\<rparr>)"
        by (rule steady_same) simp_all
      with False Some Slow show ?thesis by (simp add: consumeFood_def)
    next
      case Poison
      have "steady st (updSnake w (\<lambda>s. s\<lparr>body := butlast (butlast (body s))\<rparr>)
                (if w = Player then st\<lparr>score := max 0 (score st - 2)\<rparr> else st))"
        by (rule steady_trans[OF _ steady_updSnake]) (auto dest: in_set_butlastD)
      with False Some Poison show ?thesis by (simp add: consumeFood_def Let_def)
    next
      case Invisible
      have "steady st (if w = Player then st\<lparr>invisibleTailTicks := 5000 div tickInterval st\<rparr> else st)"
        by (rule steady_same) simp_all
      with False Some Invisible show ?thesis by (simp add: consumeFood_def)
    qed
  qed
qed

lemma steady_spliceFood: "steady st (spliceFood i st)"
proof (rule steady_foods)
  have "filter (\<lambda>f. ftype f = Special) (foods st)
        = filter (\<lambda>f. ftype f = Special) (take i (foods st))
          @ filter (\<lambda>f. ftype f = Special) (drop i (foods st))"
    by (metis append_take_drop_id filter_append)
  moreover have "length (filter (\<lambda>f. ftype f = Special) (drop (Suc i) (foods st)))
                 \<le> length (filter (\<lambda>f. ftype f = Special) (drop i (foods st)))"
    by (cases "drop i (foods st)") (simp_all add: drop_Suc tl_drop[symmetric] drop_tl)
  ultimately show "specials (spliceFood i st) \<le> specials st"
    by (simp add: specials_def spliceFood_def)
qed (simp_all add: spliceFood_def)

lemma steady_foodScan: "steady st (final (foodScan rnd i st))"
proof (induction i arbitrary: st)
  case 0
  show ?case by simp
next
  case (Suc i)
  have step: "steady st (final (foodScan rnd i (spliceFood i (consumeFood rnd w f st))))" for w f
    using steady_trans[OF steady_trans[OF steady_consumeFood steady_spliceFood] Suc.IH] .
  show ?case
    by (simp add: Let_def step Suc.IH split: option.splits)
qed

lemma steady_handleFoodCollisions: "steady st (final (handleFoodCollisions rnd st))"
  by (simp add: handleFoodCollisions_def steady_foodScan)

lemma steady_hitLoop: "steady st (hitLoop w h segs st)"
  by (simp add: hitLoop_eq steady_dies)

lemma steady_selfCollision: "steady st (selfCollision w b st)"
  by (cases b) (simp_all add: selfCollision_def steady_hitLoop)

lemma steady_headInto: "steady st (final (headInto w mine others st))"
  by (cases others; cases mine) (simp_all add: headInto_def steady_hitLoop)

lemma steady_kill: "steady st (updSnake w (\<lambda>s. s\<lparr>alive := False\<rparr>) st)"
  by (rule steady_updSnake) simp

lemma steady_headToHead: "steady st (final (headToHead bp ba st))"
  using steady_trans[OF steady_trans[OF steady_kill steady_kill] steady_onPlayerDie]
  by (cases bp; cases ba) (simp_all add: headToHead_def)

lemma steady_handleCollisions: "steady st (final (handleCollisionsSingleMode st))"
proof (cases "playerSnake st")
  case None
  then show ?thesis by (simp add: handleCollisionsSingleMode_def)
next
  case (Some p)
  define st1 where "st1 = (if alive p then selfCollision Player (body p) st else st)"
  have 1: "steady st st1" by (simp add: st1_def steady_selfCollision)
  have tail: "steady st1 (final (andThen (headToHead (body p) ba (selfCollision AI ba st1))
                   (\<lambda>st3. andThen
                       (if isAlive Player st3 then headInto Player (body p) ba st3
                        else Done st3)
                       (\<lambda>st4. if isAlive AI st4 then headInto AI ba (body p) st4
                              else Done st4))))" for ba
    by (intro steady_andThen steady_trans[OF steady_selfCollision steady_headToHead])
       (simp_all add: steady_headInto)
  show ?thesis
    using Some 1 steady_trans[OF 1 tail]
    by (simp add: handleCollisionsSingleMode_def st1_def[symmetric] Let_def split: option.splits)
qed

lemma steady_randomCalls [simp]: "steady st (st\<lparr>randomCalls := n\<rparr>)"
  by (rule steady_same) simp_all

lemma steady_mathRandom: "steady st (snd (mathRandom rnd st))"
  by (simp add: mathRandom_def)

lemma steady_setAIDir: "steady st (setAIDir d st)"
  unfolding setAIDir_def by (rule steady_updSnake) simp

lemma steady_randomTurn: "steady st (randomTurn rnd st)"
  using steady_trans[OF steady_randomCalls steady_setAIDir]
  by (simp add: randomTurn_def randomChoice_def randomBelow_def mathRandom_def)

lemma steady_stepAI: "steady st (stepAI st)"
  by (simp add: stepAI_def steady_stepSnake split: option.splits)

lemma steady_turnTowards: "steady st (turnTowards h n st)"
proof -
  have cond: "steady s (if c then setAIDir d s else s)" for s c d
    by (simp add: steady_setAIDir)
  show ?thesis
    unfolding turnTowards_def Let_def
    by (rule steady_trans[OF cond steady_trans[OF cond steady_trans[OF cond cond]]])
qed

lemma steady_aiEasy: "steady st (final (aiEasy rnd head st))"
proof -
  have cond: "steady s (if c then setAIDir d s else s)" for s c d
    by (simp add: steady_setAIDir)
  obtain r st1 where mr: "mathRandom rnd st = (r, st1)" by (cases "mathRandom rnd st")
  have 1: "steady st st1" using steady_mathRandom[of st rnd] mr by simp
  define st2 where "st2 = (if r < 0.2 then randomTurn rnd st1 else st1)"
  have 2: "steady st st2"
    unfolding st2_def using 1 steady_trans[OF 1 steady_randomTurn] by simp
  show ?thesis
  proof (cases head)
    case None
    with 2 show ?thesis
      by (simp add: aiEasy_def mr st2_def Let_def)
  next
    case (Some h)
    define st6 where "st6 =
            (let st3 = (if fst h < 2 then setAIDir Right st2 else st2);
                  st4 = (if fst h > GRID - 3 then setAIDir Left st3 else st3);
                  st5 = (if snd h < 2 then setAIDir Down st4 else st4)
              in (if snd h > GRID - 3 then setAIDir Up st5 else st5))"
    have "steady st2 st6"
      unfolding st6_def Let_def
      by (rule steady_trans[OF cond steady_trans[OF cond steady_trans[OF cond cond]]])
    then have 6: "steady st (stepAI st6)"
      using 2 steady_stepAI by (meson steady_trans)
    have "aiEasy rnd head st = Done (stepAI st6)"
      by (simp add: aiEasy_def mr Some st2_def st6_def Let_def)
    with 6 show ?thesis by simp
  qed
qed

lemma steady_aiSeek: "steady st (final (aiSeek rnd head diff st))"
proof (cases "findNearestFood head st")
  case Throws
  then show ?thesis by (simp add: aiSeek_def)
next
  case (Returns t)
  show ?thesis
  proof (cases t)
    case None
    with Returns show ?thesis by (simp add: aiSeek_def steady_stepAI)
  next
    case (Some target)
    show ?thesis
    proof (cases head)
      case None
      with Returns Some show ?thesis by (simp add: aiSeek_def)
    next
      case h: (Some h)
      define st1 where "st1 = (case bfsPath st h (foodCell target) of
                             Some (p0 # next # rest) \<Rightarrow> turnTowards h next st
                           | _ \<Rightarrow> randomTurn rnd st)"
      have 1: "steady st st1"
        unfolding st1_def
        by (simp add: steady_turnTowards steady_randomTurn split: option.splits list.splits)
      obtain r st' where mr: "mathRandom rnd st1 = (r, st')" by (cases "mathRandom rnd st1")
      have m: "steady st1 st'" using steady_mathRandom[of st1 rnd] mr by simp
      define st2 where "st2 = (if diff = Some NormalAI
                           then (if r < 0.12 then randomTurn rnd st' else st')
                           else st1)"
      have "steady st1 st2"
        unfolding st2_def using m steady_trans[OF m steady_randomTurn] by simp
      then have 2: "steady st (stepAI st2)"
        using 1 steady_stepAI by (meson steady_trans)
      have "aiSeek rnd head diff st = Done (stepAI st2)"
        using Returns Some h
        by (simp add: aiSeek_def st1_def[symmetric] mr st2_def Let_def)
      with 2 show ?thesis by simp
    qed
  qed
qed

lemma steady_aiStep: "steady st (final (aiStep rnd st))"
  by (simp add: aiStep_def steady_aiEasy steady_aiSeek split: option.splits)

lemma steady_endOfTick: "steady st (endOfTick st)"
  by (rule steady_same)
     (simp_all add: endOfTick_def setSpeedFromScore_def startTick_def Let_def)

lemma steady_gameTick: "steady st (final (gameTick rnd st))"
proof -
  define st1 where "st1 = st\<lparr>gameTime := gameTime st + of_int (tickInterval st) / 1000\<rparr>"
  have 1: "steady st st1" unfolding st1_def by (rule steady_same) simp_all
  show ?thesis
  proof (cases "mode st1")
    case None
    with 1 show ?thesis by (simp add: gameTick_def st1_def[symmetric] Let_def)
  next
    case (Some m)
    have "steady st1 (final (andThen (if m = AIMode \<and> isAlive AI (stepSnake Player (playerDir st1) st1)
                      then aiStep rnd (stepSnake Player (playerDir st1) st1)
                      else Done (stepSnake Player (playerDir st1) st1))
             (\<lambda>st3. andThen (handleFoodCollisions rnd st3)
                (\<lambda>st4. andThen (handleCollisionsSingleMode st4)
                   (\<lambda>st5. Done (endOfTick st5))))))"
      by (intro steady_andThen)
         (auto simp: steady_stepSnake steady_handleFoodCollisions steady_handleCollisions
            steady_endOfTick intro: steady_trans[OF steady_stepSnake steady_aiStep])
    from steady_trans[OF 1 this] Some show ?thesis
      by (simp add: gameTick_def st1_def[symmetric] Let_def)
  qed
qed

lemma steady_initGame: "steady st (initGame rnd st)"
proof -
  define mid where "mid = GRID div 2"
  define st2 where "st2 = (stopTick st)\<lparr>foods := [], score := 0, tickInterval := BASE_TICK,
                               speedBoost := 0, gameTime := 0, invisibleTailTicks := 0,
                               playerDir := Right,
                               playerSnake := Some (makeSnake [(mid - 2, mid), (mid - 3, mid), (mid - 4, mid)] ''#00e0ff'')\<rparr>"
  define st4 where "st4 = (snd (placeFood rnd Normal st2))\<lparr>specialTimer := True\<rparr>"
  define ai where "ai = (let px = \<lfloor>of_int GRID * (0.2 :: real)\<rfloor>; py = \<lfloor>of_int GRID * (0.2 :: real)\<rfloor>
                       in (makeSnake [(px, py), (px - 1, py), (px - 2, py)] ''#ff8b4b'')
                                         \<lparr>dir := Right, difficulty := Some (aiDifficulty st4)\<rparr>)"
  define st5 where "st5 = (if mode st4 = Some AIMode then st4\<lparr>aiSnake := Some ai\<rparr>
                           else st4\<lparr>aiSnake := None\<rparr>)"
  have eq: "initGame rnd st = st5\<lparr>gameOverPanel := None\<rparr>"
    by (simp add: initGame_def st2_def st4_def st5_def ai_def mid_def Let_def)
  have sb: "speedBoost st5 = 0" by (simp add: st5_def st4_def st2_def)
  have "specials st2 = 0" by (simp add: specials_def st2_def)
  then have sp: "specials st5 = 0"
    using steady_placeFood_Normal[of st2 rnd]
    by (simp add: st5_def st4_def steady_def specials_def)
  have pl: "bodyCells (playerSnake st5) = {(mid - 2, mid), (mid - 3, mid), (mid - 4, mid)}"
    by (auto simp add: st5_def st4_def st2_def bodyCells_def makeSnake_def)
  have "\<lfloor>of_int GRID * (0.2 :: real)\<rfloor> = 6" by (simp add: GRID_def)
  then have aic: "bodyCells (aiSnake st5) \<subseteq> {(6, 6), (5, 6), (4, 6)}"
    by (auto simp add: st5_def bodyCells_def ai_def makeSnake_def Let_def)
  have "\<forall>c \<in> allCells st5. insideGrid c"
    using aic by (auto simp add: allCells_def pl mid_def GRID_def insideGrid_def)
  with sb sp show ?thesis
    unfolding eq by (simp add: steady_def specials_def allCells_def)
qed

lemma steady_startTick [simp]: "steady st (startTick st)"
  by (rule steady_same) (simp_all add: startTick_def)

lemma steady_stopTick [simp]: "steady st (stopTick st)"
  by (rule steady_same) (simp_all add: stopTick_def)

lemma steady_startMenuMode: "steady st (startMenuMode rnd m st)"
proof -
  have "steady st (st\<lparr>mode := Some m\<rparr>)" by (rule steady_same) simp_all
  from steady_trans[OF steady_trans[OF this steady_initGame] steady_startTick]
  show ?thesis by (simp add: startMenuMode_def)
qed

lemma steady_startAIMode: "steady st (startAIMode rnd d st)"
proof -
  have "steady st (st\<lparr>aiDifficulty := d\<rparr>)" by (rule steady_same) simp_all
  from steady_trans[OF this steady_startMenuMode]
  show ?thesis by (simp add: startAIMode_def)
qed

lemma steady_restartGame: "steady st (restartGame rnd st)"
  using steady_trans[OF steady_initGame steady_startTick]
  by (simp add: restartGame_def Let_def steady_initGame)

lemma steady_keydown: "steady st (keydown k st)"
  by (rule steady_same)
     (simp_all add: keydown_def togglePause_def startTick_def stopTick_def Let_def)

lemma steady_slowRevert: "steady st (slowRevert st)"
  by (rule steady_same) (simp_all add: slowRevert_def startTick_def Let_def)

lemma steady_handle: "e \<noteq> SpecialTimer \<Longrightarrow> steady st (final (handle rnd e st))"
proof (cases e)
  case (TimePasses t)
  have "steady st (st\<lparr>dateNow := t\<rparr>)" by (rule steady_same) simp_all
  with TimePasses show ?thesis by simp
qed (simp_all add: steady_startMenuMode steady_startAIMode steady_restartGame backToMenu_def
       togglePause_def steady_keydown steady_gameTick steady_slowRevert)

text \<open>The callback of the special-food timer.\<close>

lemma specialSpawn_effect:
  "speedBoost (specialSpawn rnd st) = speedBoost st"
  "playerSnake (specialSpawn rnd st) = playerSnake st"
  "aiSnake (specialSpawn rnd st) = aiSnake st"
  "specials st \<noteq> 0 \<Longrightarrow> specialSpawn rnd st = st"
  "specials (specialSpawn rnd st) \<le> max 1 (specials st)"
proof -
  obtain r st1 where mr: "mathRandom rnd st = (r, st1)" by (cases "mathRandom rnd st")
  then have st1: "st1 = st\<lparr>randomCalls := Suc (randomCalls st)\<rparr>" by (auto simp: mathRandom_def)
  have ex: "list_ex (\<lambda>f. ftype f = Special) (foods st) \<longleftrightarrow> specials st \<noteq> 0"
    by (simp add: specials_def list_ex_iff filter_empty_conv)
  show "speedBoost (specialSpawn rnd st) = speedBoost st"
    "playerSnake (specialSpawn rnd st) = playerSnake st"
    "aiSnake (specialSpawn rnd st) = aiSnake st"
    by (simp_all add: specialSpawn_def mr st1)
  show "specials st \<noteq> 0 \<Longrightarrow> specialSpawn rnd st = st"
    by (simp add: specialSpawn_def ex)
  have "specials (snd (placeFood rnd Special st1)) \<le> Suc (specials st1)"
    by (simp add: specials_placeFood split: option.splits)
  moreover have "specials st1 = specials st" by (simp add: st1 specials_def)
  ultimately show "specials (specialSpawn rnd st) \<le> max 1 (specials st)"
    by (cases "specials st = 0") (auto simp add: specialSpawn_def ex mr)
qed

lemma reachable_invariant:
  "reachable rnd st \<Longrightarrow>
     speedBoost st = 0 \<and> specials st \<le> 1 \<and> (\<forall>c \<in> allCells st. insideGrid c)"
proof (induction rule: reachable.induct)
  case boot
  show ?case by (simp add: bootState_def specials_def allCells_def bodyCells_def)
next
  case (event st e)
  show ?case
  proof (cases "e = SpecialTimer")
    case True
    with event.IH specialSpawn_effect(5)[of rnd st] show ?thesis
      by (simp add: specialSpawn_effect(1-3) allCells_def)
  next
    case False
    from steady_handle[OF False, of st rnd] event.IH show ?thesis
      unfolding steady_def by force
  qed
qed

lemma setSpeedFromScore_tick:
  "tickInterval (setSpeedFromScore st) =
     max MIN_TICK (BASE_TICK - (score st div 5) * 10 - speedBoost st)"
  by (simp add: setSpeedFromScore_def startTick_def Let_def)

subsection \<open>The sample run\<close>

lemma demo_samples:
  "\<lfloor>frac (demoRandom 0) * of_int GRID\<rfloor> = 14"
  "\<lfloor>frac (demoRandom (Suc 0)) * of_int GRID\<rfloor> = 15"
  "k \<ge> 2 \<Longrightarrow> frac (demoRandom k) = 0"
  by (simp_all add: demoRandom_def GRID_def frac_def floor_eq_iff)

lemma started_eq:
  "started =
    \<lparr>mode = Some Single, running = True, tickInterval = 150, score = 0,
     playerDir = Right, invisibleTailTicks = 0, speedBoost = 0,
     playerSnake = Some (makeSnake [(13, 15), (12, 15), (11, 15)] ''#00e0ff''),
     aiSnake = None,
     foods = [foodAt (14, 15) Normal None],
     gameTime = 0, aiDifficulty = NormalAI, gameOverPanel = None,
     specialTimer = True, slowTimeouts = 0, randomCalls = 2, dateNow = 0\<rparr>"
  by (simp add: started_def startMenuMode_def initGame_def stopTick_def startTick_def
        placeFood_def placeFoodFrom.simps[of _ _ 0] randCell_def randomBelow_def
        mathRandom_def demo_samples collisionAt_iff bodyCells_def makeSnake_def
        bootState_def foodAt_def Let_def GRID_def[symmetric] BASE_TICK_def)
     (simp add: GRID_def)

lemma afterFirstMeal_eq:
  "afterFirstMeal =
    \<lparr>mode = Some Single, running = True, tickInterval = 150, score = 1,
     playerDir = Right, invisibleTailTicks = 0, speedBoost = 0,
     playerSnake = Some ((makeSnake [(14, 15), (13, 15), (12, 15)] ''#00e0ff'')
                          \<lparr>pendingGrow := 1, speedMultiplier := 1.03\<rparr>),
     aiSnake = None,
     foods = [foodAt (0, 0) Normal None],
     gameTime = 0.15, aiDifficulty = NormalAI, gameOverPanel = None,
     specialTimer = True, slowTimeouts = 0, randomCalls = 4, dateNow = 0\<rparr>"
  by (simp add: afterFirstMeal_def started_eq gameTick_def stepSnake_def offset_def
        insideGrid_def andThen_def isAlive_def handleFoodCollisions_def headOf_def foodCell_def
        consumeFood_def updSnake_def setSnake_def spliceFood_def SCORE_PER_FOOD_def
        placeFood_def placeFoodFrom.simps[of _ _ 0] randCell_def randomBelow_def
        mathRandom_def demo_samples collisionAt_iff bodyCells_def makeSnake_def
        handleCollisionsSingleMode_def selfCollision_def hitLoop_def
        endOfTick_def setSpeedFromScore_def MIN_TICK_def BASE_TICK_def
        foodAt_def Let_def GRID_def)

lemma withSpecial_eq:
  "final (handle demoRandom SpecialTimer afterFirstMeal) =
     afterFirstMeal\<lparr>foods := [foodAt (0, 0) Normal None, foodAt (0, 0) Special (Some Bonus)],
                     randomCalls := 8\<rparr>"
  by (simp add: afterFirstMeal_eq specialSpawn_def
        placeFood_def placeFoodFrom.simps[of _ _ 0] randCell_def randomBelow_def
        randomSpecialSubtype_def
        mathRandom_def demo_samples collisionAt_iff bodyCells_def makeSnake_def
        foodAt_def Let_def)

lemma reachable_started: "reachable demoRandom started"
  unfolding started_def by (rule reachable.event[OF reachable.boot]) simp

lemma reachable_afterFirstMeal: "reachable demoRandom afterFirstMeal"
  unfolding afterFirstMeal_def
  by (rule reachable.event[OF reachable_started]) (simp add: started_eq)

lemma reachable_withSpecial: "reachable demoRandom withSpecial"
  unfolding withSpecial_def
  by (rule reachable.event[OF reachable_afterFirstMeal]) (simp add: afterFirstMeal_eq)

subsection \<open>Invariants of the reachable states\<close>

text \<open>
  C10. In every state reachable from the page load through menu clicks, key
  presses, ticks and timers, \<open>speedBoost\<close> is 0: \<open>initGame\<close> sets it to 0, the
  only other write is \<open>max 0 (speedBoost - 2)\<close> in \<open>consumeFood\<close>, and every
  event handler leaves it at 0. So the interval that \<open>setSpeedFromScore\<close>
  computes is \<open>max MIN_TICK (BASE_TICK - (score div 5) * 10)\<close>, a function of
  the score alone.
\<close>

theorem speedBoost_zero:
  assumes "reachable rnd st"
  shows "speedBoost st = 0
       \<and> tickInterval (setSpeedFromScore st) = max MIN_TICK (BASE_TICK - (score st div 5) * 10)
       \<and> speedBoost (initGame rnd st) = 0
       \<and> speedBoost (consumeFood rnd w fd st) = 0
       \<and> (enabled e st \<longrightarrow> speedBoost (final (handle rnd e st)) = 0)"
proof -
  have 0: "speedBoost st = 0" using reachable_invariant[OF assms] by simp
  have 1: "tickInterval (setSpeedFromScore st) = max MIN_TICK (BASE_TICK - (score st div 5) * 10)"
    by (simp add: setSpeedFromScore_tick 0)
  have 2: "speedBoost (initGame rnd st) = 0"
    using steady_initGame[of st rnd] 0 by (simp add: steady_def)
  have 3: "speedBoost (consumeFood rnd w fd st) = 0"
    using steady_consumeFood[of st rnd w fd] 0 by (simp add: steady_def)
  have 4: "enabled e st \<longrightarrow> speedBoost (final (handle rnd e st)) = 0"
    using reachable_invariant[OF reachable.event[OF assms]] by simp
  from 0 1 2 3 4 show ?thesis by (intro conjI)
qed

text \<open>After the first meal of the sample run: score 1, \<open>speedBoost\<close> 0, interval 150.\<close>

theorem speedBoost_zero_witness:
  "reachable demoRandom afterFirstMeal
   \<and> score afterFirstMeal = 1
   \<and> speedBoost afterFirstMeal = 0
   \<and> tickInterval (setSpeedFromScore afterFirstMeal) = 150
   \<and> enabled TickTimer afterFirstMeal
   \<and> speedBoost (final (handle demoRandom TickTimer afterFirstMeal)) = 0"
  using speedBoost_zero[OF reachable_afterFirstMeal, of Player "foodAt (0,0) Normal None" TickTimer]
    reachable_afterFirstMeal
  by (simp add: afterFirstMeal_eq MIN_TICK_def BASE_TICK_def)

text \<open>
  C8. In every reachable state at most one food of type \<open>Special\<close> is on the
  board. No event other than the special-food timer raises the number of
  special foods, and the timer's callback does nothing while one exists.
\<close>

theorem one_special:
  assumes "reachable rnd st"
  shows "specials st \<le> 1
       \<and> (e \<noteq> SpecialTimer \<longrightarrow> specials (final (handle rnd e st)) \<le> specials st)
       \<and> (specials st \<noteq> 0 \<longrightarrow> final (handle rnd SpecialTimer st) = st)"
proof (intro conjI impI)
  show "specials st \<le> 1" using reachable_invariant[OF assms] by simp
next
  assume "e \<noteq> SpecialTimer"
  from steady_handle[OF this, of st rnd]
  show "specials (final (handle rnd e st)) \<le> specials st" by (simp add: steady_def)
next
  assume "specials st \<noteq> 0"
  then show "final (handle rnd SpecialTimer st) = st" by (simp add: specialSpawn_effect(4))
qed

text \<open>
  The sample run after the timer has spawned a special food: one special
  food, a tick keeps it at one at most, and the timer firing again changes
  nothing.
\<close>

theorem one_special_witness:
  "reachable demoRandom withSpecial
   \<and> specials withSpecial = 1
   \<and> TickTimer \<noteq> SpecialTimer
   \<and> specials (final (handle demoRandom TickTimer withSpecial)) \<le> 1
   \<and> final (handle demoRandom SpecialTimer withSpecial) = withSpecial"
proof -
  have s: "specials withSpecial = 1"
    unfolding withSpecial_def withSpecial_eq by (simp add: specials_def foodAt_def)
  with one_special[OF reachable_withSpecial, of TickTimer] reachable_withSpecial
  show ?thesis by simp
qed

text \<open>
  C5. In every reachable state every cell of both snakes, so the head of a
  live snake, is inside the grid. When the new head of a live snake would be
  outside the grid, \<open>stepSnake\<close> only marks that snake dead and calls
  \<open>onPlayerDie\<close>: its body is untouched, the other snake is unchanged, the
  tick timer is stopped, and the function returns normally. The script
  records no cause of death; this is the branch the spec calls \<open>wall\<close>. (A
  snake whose body poison has emptied has no head; its next step ends in the
  same branch.)
\<close>

theorem wall_death:
  "(reachable rnd st \<longrightarrow>
      (\<forall>c \<in> allCells st. insideGrid c)
    \<and> (\<forall>v s h. snakeOf v st = Some s \<and> alive s \<and> headOf s = Some h \<longrightarrow> insideGrid h))
   \<and> (snakeOf w st' = Some s' \<and> alive s' \<and> body s' = h' # rest \<and> \<not> insideGrid (offset d h') \<longrightarrow>
        stepSnake w d st' = onPlayerDie (diedOf w) (setSnake w (s'\<lparr>alive := False\<rparr>) st')
      \<and> snakeOf w (stepSnake w d st') = Some (s'\<lparr>alive := False\<rparr>)
      \<and> snakeOf (opponent w) (stepSnake w d st') = snakeOf (opponent w) st'
      \<and> running (stepSnake w d st') = False)"
proof (intro conjI impI allI)
  assume r: "reachable rnd st"
  then show cells: "\<forall>c \<in> allCells st. insideGrid c" using reachable_invariant by blast
  fix v s h
  assume a: "snakeOf v st = Some s \<and> alive s \<and> headOf s = Some h"
  then have "h \<in> set (body s)" by (auto simp: headOf_def split: list.splits)
  with a have "h \<in> allCells st"
    by (cases v) (auto simp: allCells_def bodyCells_def)
  with cells show "insideGrid h" by blast
next
  assume a: "snakeOf w st' = Some s' \<and> alive s' \<and> body s' = h' # rest \<and> \<not> insideGrid (offset d h')"
  then have eq: "stepSnake w d st' = onPlayerDie (diedOf w) (setSnake w (s'\<lparr>alive := False\<rparr>) st')"
    by (cases w) (simp_all add: stepSnake_def dies_def Let_def)
  show "stepSnake w d st' = onPlayerDie (diedOf w) (setSnake w (s'\<lparr>alive := False\<rparr>) st')"
    by (rule eq)
  show "snakeOf w (stepSnake w d st') = Some (s'\<lparr>alive := False\<rparr>)"
    unfolding eq by (cases w) (simp_all add: setSnake_def)
  show "snakeOf (opponent w) (stepSnake w d st') = snakeOf (opponent w) st'"
    unfolding eq by (cases w) (simp_all add: setSnake_def)
  show "running (stepSnake w d st') = False"
    unfolding eq by simp
qed

text \<open>
  The player of the sample run has its head on \<open>(14,15)\<close>; a player on the
  right border stepping right dies with its body unchanged.
\<close>

theorem wall_death_witness:
  "reachable demoRandom afterFirstMeal
   \<and> map_option headOf (snakeOf Player afterFirstMeal) = Some (Some (14, 15))
   \<and> insideGrid (14, 15)
   \<and> snakeOf Player (soloGame [(29,5),(28,5),(27,5)]) = Some (makeSnake [(29,5),(28,5),(27,5)] ''#00e0ff'')
   \<and> alive (makeSnake [(29,5),(28,5),(27,5)] ''#00e0ff'')
   \<and> \<not> insideGrid (offset Right (29,5))
   \<and> stepSnake Player Right (soloGame [(29,5),(28,5),(27,5)])
       = (soloGame [(29,5),(28,5),(27,5)])
           \<lparr>running := False,
            playerSnake := Some ((makeSnake [(29,5),(28,5),(27,5)] ''#00e0ff'')\<lparr>alive := False\<rparr>),
            gameOverPanel := Some (GameOverMsg 0)\<rparr>"
proof -
  have h: "snakeOf Player afterFirstMeal
            = Some ((makeSnake [(14, 15), (13, 15), (12, 15)] ''#00e0ff'')
                          \<lparr>pendingGrow := 1, speedMultiplier := 1.03\<rparr>)"
    by (simp add: afterFirstMeal_eq)
  have hd: "headOf ((makeSnake [(14, 15), (13, 15), (12, 15)] ''#00e0ff'')
                          \<lparr>pendingGrow := 1, speedMultiplier := 1.03\<rparr>) = Some (14, 15)"
    "alive ((makeSnake [(14, 15), (13, 15), (12, 15)] ''#00e0ff'')
                          \<lparr>pendingGrow := 1, speedMultiplier := 1.03\<rparr>)"
    by (simp_all add: headOf_def makeSnake_def)
  note th = wall_death[of demoRandom afterFirstMeal Player "soloGame [(29,5),(28,5),(27,5)]"
          "makeSnake [(29,5),(28,5),(27,5)] ''#00e0ff''" "(29,5)" "[(28,5),(27,5)]" Right]
  from th reachable_afterFirstMeal h hd have "insideGrid (14, 15)" by blast
  moreover have pre: "snakeOf Player (soloGame [(29,5),(28,5),(27,5)]) = Some (makeSnake [(29,5),(28,5),(27,5)] ''#00e0ff'')"
    "alive (makeSnake [(29,5),(28,5),(27,5)] ''#00e0ff'')"
    "body (makeSnake [(29,5),(28,5),(27,5)] ''#00e0ff'') = (29,5) # [(28,5),(27,5)]"
    "\<not> insideGrid (offset Right (29,5))"
    by (simp_all add: soloGame_def makeSnake_def insideGrid_def offset_def GRID_def)
  moreover from th pre have "stepSnake Player Right (soloGame [(29,5),(28,5),(27,5)])
       = onPlayerDie (diedOf Player) (setSnake Player ((makeSnake [(29,5),(28,5),(27,5)] ''#00e0ff'')\<lparr>alive := False\<rparr>)
           (soloGame [(29,5),(28,5),(27,5)]))"
    by blast
  ultimately show ?thesis
    using reachable_afterFirstMeal h hd
    by (simp add: soloGame_def onPlayerDie_def diedOf_def setSnake_def stopTick_def
          showGameOver_def bootState_def)
qed

subsection \<open>The breadth-first search\<close>

lemma walk_nonempty: "walk obstacles goal tr \<Longrightarrow> tr \<noteq> []"
  by (cases tr) simp_all

lemma walk_nth:
  "walk obstacles goal tr \<Longrightarrow> Suc i < length tr \<Longrightarrow>
   tr ! Suc i \<in> set (neighbors (tr ! i)) \<and> passable obstacles goal (tr ! Suc i)"
proof (induction obstacles goal tr arbitrary: i rule: walk.induct)
  case (3 obstacles goal p n rest)
  then show ?case by (cases i) simp_all
qed simp_all

lemma walk_snoc:
  "tr \<noteq> [] \<Longrightarrow>
   walk obstacles goal (tr @ [n]) \<longleftrightarrow>
     walk obstacles goal tr \<and> n \<in> set (neighbors (last tr)) \<and> passable obstacles goal n"
proof (induction obstacles goal tr rule: walk.induct)
  case (3 obstacles goal p m rest)
  then show ?case by auto
qed simp_all

lemma last_visited:
  assumes "tr \<noteq> []" and "tr ! 0 \<in> visited" and "last tr \<notin> visited"
  shows "\<exists>j. Suc j < length tr \<and> tr ! j \<in> visited
            \<and> (\<forall>k. j < k \<and> k < length tr \<longrightarrow> tr ! k \<notin> visited)"
proof -
  define J where "J = {i. i < length tr \<and> tr ! i \<in> visited}"
  have fin: "finite J" by (simp add: J_def)
  have ne: "J \<noteq> {}" using assms(1,2) by (auto simp: J_def)
  define j where "j = Max J"
  have jJ: "j \<in> J" unfolding j_def using fin ne by (rule Max_in)
  have top: "k \<notin> J" if "j < k" for k
    using that Max_ge[OF fin, of k] by (auto simp: j_def)
  have "j \<noteq> length tr - 1"
    using jJ assms(1,3) by (auto simp: J_def last_conv_nth)
  with jJ have "Suc j < length tr" by (auto simp: J_def)
  moreover have "tr ! j \<in> visited" using jJ by (simp add: J_def)
  moreover have "\<forall>k. j < k \<and> k < length tr \<longrightarrow> tr ! k \<notin> visited"
    using top by (auto simp: J_def)
  ultimately show ?thesis by blast
qed

lemma visitNeighbors_spec:
  "visitNeighbors obstacles goal path ns q visited = (q', visited') \<Longrightarrow>
   \<exists>new. q' = q @ map (\<lambda>n. (n, path @ [n])) new \<and> visited' = visited \<union> set new
        \<and> set new = {n \<in> set ns. passable obstacles goal n \<and> n \<notin> visited}"
proof (induction ns arbitrary: q visited)
  case Nil
  then show ?case by simp
next
  case (Cons n ns)
  show ?case
  proof (cases "passable obstacles goal n \<and> n \<notin> visited")
    case False
    then have "visitNeighbors obstacles goal path ns q visited = (q', visited')"
      using Cons.prems by (auto simp: passable_def split: if_splits)
    from Cons.IH[OF this] obtain new where
      "q' = q @ map (\<lambda>n. (n, path @ [n])) new" "visited' = visited \<union> set new"
      "set new = {n \<in> set ns. passable obstacles goal n \<and> n \<notin> visited}" by blast
    moreover from this(3) False
    have "set new = {m \<in> set (n # ns). passable obstacles goal m \<and> m \<notin> visited}" by auto
    ultimately show ?thesis by blast
  next
    case True
    then have "visitNeighbors obstacles goal path ns (q @ [(n, path @ [n])]) (insert n visited)
               = (q', visited')"
      using Cons.prems by (auto simp: passable_def split: if_splits)
    from Cons.IH[OF this] obtain new where new:
      "q' = (q @ [(n, path @ [n])]) @ map (\<lambda>n. (n, path @ [n])) new"
      "visited' = insert n visited \<union> set new"
      "set new = {m \<in> set ns. passable obstacles goal m \<and> m \<notin> insert n visited}" by blast
    have "q' = q @ map (\<lambda>n. (n, path @ [n])) (n # new)" using new(1) by simp
    moreover have "visited' = visited \<union> set (n # new)" using new(2) by simp
    moreover have "set (n # new) = {m \<in> set (n # ns). passable obstacles goal m \<and> m \<notin> visited}"
      using new(3) True by auto
    ultimately show ?thesis by blast
  qed
qed

lemma bfsInv_step:
  assumes inv: "bfsInv obstacles goal start ((p, path) # q) visited"
    and ng: "p \<noteq> goal"
    and new: "set new = {n \<in> set (neighbors p). passable obstacles goal n \<and> n \<notin> visited}"
  shows "bfsInv obstacles goal start (q @ map (\<lambda>n. (n, path @ [n])) new) (visited \<union> set new)"
proof -
  let ?q' = "q @ map (\<lambda>n. (n, path @ [n])) new"
  let ?v' = "visited \<union> set new"
  note c = inv[unfolded bfsInv_def]
  note S = c[THEN conjunct1]
  note A0 = c[THEN conjunct2, THEN conjunct1]
  note B1 = c[THEN conjunct2, THEN conjunct2, THEN conjunct1]
  note B0 = c[THEN conjunct2, THEN conjunct2, THEN conjunct2, THEN conjunct1]
  note E0 = c[THEN conjunct2, THEN conjunct2, THEN conjunct2, THEN conjunct2, THEN conjunct1]
  note F0 = c[THEN conjunct2, THEN conjunct2, THEN conjunct2, THEN conjunct2, THEN conjunct2,
              THEN conjunct1]
  note G0 = c[THEN conjunct2, THEN conjunct2, THEN conjunct2, THEN conjunct2, THEN conjunct2,
              THEN conjunct2]
  have A: "route obstacles goal start p' path' \<and> p' \<in> visited"
    if "(p', path') \<in> set ((p, path) # q)" for p' path'
    using bspec[OF A0 that] by simp
  have B2: "length (snd e) \<le> Suc (length path)" if "e \<in> set ((p, path) # q)" for e
    using bspec[OF B0 that] by simp
  have E: "\<exists>path'. (tr ! j, path') \<in> set ((p, path) # q) \<and> length path' \<le> Suc j"
    if "walk obstacles goal tr" "hd tr = start" "last tr \<notin> visited"
       "j < length tr" "tr ! j \<in> visited"
       "\<forall>k. j < k \<and> k < length tr \<longrightarrow> tr ! k \<notin> visited" for tr j
    using E0[rule_format, of tr j] that by (intro E0[rule_format, of tr j] conjI)
  have F: "length path' \<le> length tr"
    if "(p', path') \<in> set ((p, path) # q)" "route obstacles goal start p' tr" for p' path' tr
    using bspec[OF F0 that(1)] that(2) by simp
  have G: "goal \<in> fst ` set ((p, path) # q)" if "goal \<in> visited"
    using G0 that by (rule mp)
  have rp: "route obstacles goal start p path" and pv: "p \<in> visited"
    using A[of p path] by simp_all
  have minlen: "length path \<le> length path'" if "(p', path') \<in> set ((p, path) # q)" for p' path'
    using B1 that by auto
  have newlen: "length path' = Suc (length path)" and newvis: "p' \<notin> visited"
    and newnb: "p' \<in> set (neighbors p)" and newpass: "passable obstacles goal p'"
    and newpath: "path' = path @ [p']"
    if "(p', path') \<in> set (map (\<lambda>n. (n, path @ [n])) new)" for p' path'
    using that new by auto
  have frontier: "Suc (length path) \<le> length tr"
    if "walk obstacles goal tr" "hd tr = start" "last tr \<notin> visited" for tr
  proof -
    have ne: "tr \<noteq> []" using that(1) by (rule walk_nonempty)
    then have "tr ! 0 \<in> visited" using that(2) S by (simp add: hd_conv_nth)
    from last_visited[OF ne this that(3)] obtain j where j: "Suc j < length tr"
      "tr ! j \<in> visited" "\<forall>k. j < k \<and> k < length tr \<longrightarrow> tr ! k \<notin> visited" by blast
    from E[OF that _ j(2) j(3)] j(1) obtain path' where
      a: "(tr ! j, path') \<in> set ((p, path) # q)" and b: "length path' \<le> Suc j" by auto
    from j(1) minlen[OF a] b show ?thesis by simp
  qed
  have A1: "route obstacles goal start p' path' \<and> p' \<in> ?v'"
    if 1: "(p', path') \<in> set ?q'" for p' path'
  proof -
    show ?thesis
    proof (cases "(p', path') \<in> set q")
      case True
      with A[of p' path'] show ?thesis by simp
    next
      case False
      with 1 have n: "(p', path') \<in> set (map (\<lambda>n. (n, path @ [n])) new)" by auto
      have "walk obstacles goal (path @ [p'])"
        using rp newnb[OF n] newpass[OF n] by (simp add: route_def walk_snoc)
      then have "route obstacles goal start p' path'"
        using rp newpath[OF n] by (simp add: route_def)
      moreover have "p' \<in> ?v'" using n by auto
      ultimately show ?thesis by simp
    qed
  qed
  have A': "\<forall>(p', path') \<in> set ?q'. route obstacles goal start p' path' \<and> p' \<in> ?v'"
  proof (rule ballI)
    fix x assume x: "x \<in> set ?q'"
    obtain p' path' where xx: "x = (p', path')" by (cases x)
    from A1[of p' path'] x show "case x of (p', path') \<Rightarrow>
        route obstacles goal start p' path' \<and> p' \<in> ?v'"
      unfolding xx by simp
  qed
  have B1': "sorted (map (\<lambda>e. length (snd e)) ?q')"
  proof -
    have "sorted (map (\<lambda>e. length (snd e)) q)" using B1 by simp
    moreover have "sorted (map (\<lambda>e. length (snd e)) (map (\<lambda>n. (n, path @ [n])) new))"
      by (simp add: comp_def sorted_iff_nth_mono)
    moreover have "\<forall>x \<in> set q. \<forall>y \<in> set (map (\<lambda>n. (n, path @ [n])) new).
                      length (snd x) \<le> length (snd y)"
      using B2 by auto
    ultimately show ?thesis by (simp add: sorted_append)
  qed
  have B2': "\<forall>e \<in> set ?q'. length (snd e) \<le> Suc (length (snd (hd ?q')))"
  proof
    fix e assume e: "e \<in> set ?q'"
    then have ne: "?q' \<noteq> []" by auto
    have le: "length (snd e) \<le> Suc (length path)"
      using e B2[of e] by auto
    have "hd ?q' \<in> set ?q'" using ne by (rule hd_in_set)
    then have "length path \<le> length (snd (hd ?q'))"
      using minlen[of "fst (hd ?q')" "snd (hd ?q')"] by auto
    with le show "length (snd e) \<le> Suc (length (snd (hd ?q')))" by simp
  qed
  have E': "\<exists>path'. (tr ! j, path') \<in> set ?q' \<and> length path' \<le> Suc j"
    if w: "walk obstacles goal tr" and h: "hd tr = start" and l: "last tr \<notin> ?v'"
      and j: "j < length tr" and jv: "tr ! j \<in> ?v'"
      and above: "\<forall>k. j < k \<and> k < length tr \<longrightarrow> tr ! k \<notin> ?v'" for tr j
  proof -
    have ne: "tr \<noteq> []" using w by (rule walk_nonempty)
    have l0: "last tr \<notin> visited" using l by simp
    have "tr ! 0 \<in> visited" using h S ne by (simp add: hd_conv_nth)
    from last_visited[OF ne this l0] obtain j0 where j0: "Suc j0 < length tr"
      "tr ! j0 \<in> visited" "\<forall>k. j0 < k \<and> k < length tr \<longrightarrow> tr ! k \<notin> visited" by blast
    have le: "j0 \<le> j"
    proof (rule ccontr)
      assume "\<not> j0 \<le> j"
      then have "tr ! j0 \<notin> ?v'" using above j0(1) by simp
      with j0(2) show False by simp
    qed
    from E[OF w h l0 _ j0(2) j0(3)] j0(1) obtain path0 where
      p0: "(tr ! j0, path0) \<in> set ((p, path) # q)" "length path0 \<le> Suc j0" by auto
    show ?thesis
    proof (cases "j0 = j")
      case True
      show ?thesis
      proof (cases "(tr ! j0, path0) \<in> set q")
        case True
        with p0(2) \<open>j0 = j\<close> show ?thesis by auto
      next
        case False
        with p0(1) have "tr ! j = p" using \<open>j0 = j\<close> by simp
        with walk_nth[OF w j0(1)] \<open>j0 = j\<close>
        have "tr ! Suc j \<in> set (neighbors p)" "passable obstacles goal (tr ! Suc j)" by simp_all
        then have "tr ! Suc j \<in> ?v'" using new by auto
        moreover have "tr ! Suc j \<notin> ?v'" using above j0(1) \<open>j0 = j\<close> by simp
        ultimately show ?thesis by simp
      qed
    next
      case False
      with le have lt: "j0 < j" by simp
      then have "tr ! j \<notin> visited" using j0(3) j by simp
      with jv have "tr ! j \<in> set new" by simp
      then have "(tr ! j, path @ [tr ! j]) \<in> set ?q'" by auto
      moreover have "length (path @ [tr ! j]) \<le> Suc j"
        using minlen[OF p0(1)] p0(2) lt by simp
      ultimately show ?thesis by blast
    qed
  qed
  have F1: "length path' \<le> length tr"
    if 1: "(p', path') \<in> set ?q'" "route obstacles goal start p' tr" for p' path' tr
  proof -
    show ?thesis
    proof (cases "(p', path') \<in> set q")
      case True
      with F[of p' path' tr] 1(2) show ?thesis by simp
    next
      case False
      with 1 have n: "(p', path') \<in> set (map (\<lambda>n. (n, path @ [n])) new)" by auto
      have "last tr \<notin> visited" using 1(2) newvis[OF n] by (simp add: route_def)
      from frontier[OF _ _ this] 1(2) have "Suc (length path) \<le> length tr"
        by (simp add: route_def)
      with newlen[OF n] show ?thesis by simp
    qed
  qed
  have F': "\<forall>(p', path') \<in> set ?q'. \<forall>tr. route obstacles goal start p' tr \<longrightarrow> length path' \<le> length tr"
  proof (rule ballI)
    fix x assume x: "x \<in> set ?q'"
    obtain p' path' where xx: "x = (p', path')" by (cases x)
    from F1[of p' path'] x show "case x of (p', path') \<Rightarrow>
        \<forall>tr. route obstacles goal start p' tr \<longrightarrow> length path' \<le> length tr"
      unfolding xx by simp
  qed
  have G': "goal \<in> ?v' \<longrightarrow> goal \<in> fst ` set ?q'"
  proof
    assume "goal \<in> ?v'"
    then show "goal \<in> fst ` set ?q'"
    proof
      assume "goal \<in> visited"
      from G[OF this] ng show ?thesis by auto
    next
      assume "goal \<in> set new"
      then have "(goal, path @ [goal]) \<in> set ?q'" by auto
      then show ?thesis by force
    qed
  qed
  have E'': "\<forall>tr j. walk obstacles goal tr \<and> hd tr = start \<and> last tr \<notin> ?v'
              \<and> j < length tr \<and> tr ! j \<in> ?v'
              \<and> (\<forall>k. j < k \<and> k < length tr \<longrightarrow> tr ! k \<notin> ?v')
          \<longrightarrow> (\<exists>path. (tr ! j, path) \<in> set ?q' \<and> length path \<le> Suc j)"
  proof (intro allI impI, elim conjE)
    fix tr j
    assume "walk obstacles goal tr" "hd tr = start" "last tr \<notin> ?v'"
      "j < length tr" "tr ! j \<in> ?v'" "\<forall>k. j < k \<and> k < length tr \<longrightarrow> tr ! k \<notin> ?v'"
    then show "\<exists>path. (tr ! j, path) \<in> set ?q' \<and> length path \<le> Suc j" by (rule E')
  qed
  have S': "start \<in> ?v'" using S by simp
  show ?thesis
    unfolding bfsInv_def
    by (intro conjI S' A' B1' B2' E'' F' G')
qed

lemma bfsInv_init: "bfsInv obstacles goal start [(start, [start])] {start}"
  unfolding bfsInv_def
proof (intro conjI)
  show "\<forall>tr j. walk obstacles goal tr \<and> hd tr = start \<and> last tr \<notin> {start}
              \<and> j < length tr \<and> tr ! j \<in> {start}
              \<and> (\<forall>k. j < k \<and> k < length tr \<longrightarrow> tr ! k \<notin> {start})
          \<longrightarrow> (\<exists>path. (tr ! j, path) \<in> set [(start, [start])] \<and> length path \<le> Suc j)"
    by (intro allI impI exI[of _ "[start]"]) simp
  show "\<forall>(p, path) \<in> set [(start, [start])].
          \<forall>tr. route obstacles goal start p tr \<longrightarrow> length path \<le> length tr"
    by (auto simp: route_def Suc_le_eq)
qed (simp_all add: route_def)

lemma bfsInvD:
  assumes "bfsInv obstacles goal start q visited"
  shows "start \<in> visited"
    and "(p, path) \<in> set q \<Longrightarrow> route obstacles goal start p path"
    and "(p, path) \<in> set q \<Longrightarrow> route obstacles goal start p tr \<Longrightarrow> length path \<le> length tr"
    and "goal \<in> visited \<Longrightarrow> goal \<in> fst ` set q"
    and "walk obstacles goal tr \<Longrightarrow> hd tr = start \<Longrightarrow> last tr \<notin> visited \<Longrightarrow>
         j < length tr \<Longrightarrow> tr ! j \<in> visited \<Longrightarrow>
         (\<forall>k. j < k \<and> k < length tr \<longrightarrow> tr ! k \<notin> visited) \<Longrightarrow>
         \<exists>path'. (tr ! j, path') \<in> set q \<and> length path' \<le> Suc j"
proof -
  note c = assms[unfolded bfsInv_def]
  note A0 = c[THEN conjunct2, THEN conjunct1]
  note E0 = c[THEN conjunct2, THEN conjunct2, THEN conjunct2, THEN conjunct2, THEN conjunct1]
  note F0 = c[THEN conjunct2, THEN conjunct2, THEN conjunct2, THEN conjunct2, THEN conjunct2,
              THEN conjunct1]
  note G0 = c[THEN conjunct2, THEN conjunct2, THEN conjunct2, THEN conjunct2, THEN conjunct2,
              THEN conjunct2]
  show "start \<in> visited" by (rule c[THEN conjunct1])
  show "(p, path) \<in> set q \<Longrightarrow> route obstacles goal start p path"
    using bspec[OF A0, of "(p, path)"] by simp
  show "(p, path) \<in> set q \<Longrightarrow> route obstacles goal start p tr \<Longrightarrow> length path \<le> length tr"
    using bspec[OF F0, of "(p, path)"] by simp
  show "goal \<in> visited \<Longrightarrow> goal \<in> fst ` set q"
    using G0 by (rule mp)
  show "walk obstacles goal tr \<Longrightarrow> hd tr = start \<Longrightarrow> last tr \<notin> visited \<Longrightarrow>
         j < length tr \<Longrightarrow> tr ! j \<in> visited \<Longrightarrow>
         (\<forall>k. j < k \<and> k < length tr \<longrightarrow> tr ! k \<notin> visited) \<Longrightarrow>
         \<exists>path'. (tr ! j, path') \<in> set q \<and> length path' \<le> Suc j"
    by (intro E0[rule_format, of tr j] conjI)
qed

lemma bfsLoop_correct:
  "bfsInv obstacles goal start q visited \<Longrightarrow>
   (case bfsLoop obstacles goal q visited of
      None \<Rightarrow> (\<forall>tr. \<not> route obstacles goal start goal tr)
    | Some path \<Rightarrow> route obstacles goal start goal path
                 \<and> (\<forall>tr. route obstacles goal start goal tr \<longrightarrow> length path \<le> length tr))"
proof (induction obstacles goal q visited rule: bfsLoop.induct)
  case (1 obstacles goal visited)
  note d = bfsInvD[OF "1.prems"]
  have G: "goal \<notin> visited" using d(4) by auto
  have "\<not> route obstacles goal start goal tr" for tr
  proof
    assume r: "route obstacles goal start goal tr"
    then have ne: "tr \<noteq> []" and w: "walk obstacles goal tr" and h: "hd tr = start"
      and l: "last tr \<notin> visited" using G by (simp_all add: route_def)
    have "tr ! 0 \<in> visited" using ne h d(1) by (simp add: hd_conv_nth)
    from last_visited[OF ne this l] obtain j where j: "Suc j < length tr" "tr ! j \<in> visited"
      "\<forall>k. j < k \<and> k < length tr \<longrightarrow> tr ! k \<notin> visited" by blast
    from j(1) have "j < length tr" by simp
    from d(5)[OF w h l this j(2) j(3)] show False by simp
  qed
  then show ?case by simp
next
  case (2 obstacles goal p path q visited)
  show ?case
  proof (cases "p = goal")
    case True
    note d = bfsInvD[OF "2.prems"]
    have "route obstacles goal start goal path" using d(2)[of p path] True by simp
    moreover have "\<forall>tr. route obstacles goal start goal tr \<longrightarrow> length path \<le> length tr"
      using d(3)[of p path] True by simp
    ultimately show ?thesis using True by simp
  next
    case False
    obtain q' visited' where vn:
      "visitNeighbors obstacles goal path (neighbors p) q visited = (q', visited')"
      by (cases "visitNeighbors obstacles goal path (neighbors p) q visited")
    from visitNeighbors_spec[OF vn] obtain new where
      new: "q' = q @ map (\<lambda>n. (n, path @ [n])) new" "visited' = visited \<union> set new"
        "set new = {n \<in> set (neighbors p). passable obstacles goal n \<and> n \<notin> visited}" by blast
    have inv': "bfsInv obstacles goal start q' visited'"
      unfolding new(1,2) using "2.prems" False new(3) by (rule bfsInv_step)
    have ne: "\<not> eq p goal" using False by simp
    from "2.IH"[OF ne vn[symmetric] inv']
    have "case bfsLoop obstacles goal q' visited' of
      None \<Rightarrow> (\<forall>tr. \<not> route obstacles goal start goal tr)
    | Some path \<Rightarrow> route obstacles goal start goal path
                 \<and> (\<forall>tr. route obstacles goal start goal tr \<longrightarrow> length path \<le> length tr)" .
    then show ?thesis using False vn by simp
  qed
qed

text \<open>
  C2. For every start cell, goal cell and pair of snake bodies, with the body
  cells as obstacles and the goal always allowed: if some route from the start
  to the goal exists, \<open>bfsPath\<close> returns a route whose hop count is at most
  that of every route, so it equals the shortest hop count; if none exists it
  returns \<open>None\<close>. The search always returns, the loop being a total
  function. The start cell itself is where the snake's head is (it is always
  among the obstacles) and is not tested.
\<close>

theorem bfsPath_shortest:
  "((\<exists>tr. route (allCells st) goal start goal tr) \<longrightarrow>
      (\<exists>path. bfsPath st start goal = Some path
             \<and> route (allCells st) goal start goal path
             \<and> (\<forall>tr. route (allCells st) goal start goal tr \<longrightarrow> hops path \<le> hops tr)
             \<and> hops path = shortestHops (allCells st) start goal))
   \<and> ((\<nexists>tr. route (allCells st) goal start goal tr) \<longrightarrow> bfsPath st start goal = None)"
proof -
  have b: "bfsPath st start goal = bfsLoop (allCells st) goal [(start, [start])] {start}"
    unfolding bfsPath_def allCells_def Let_def ..
  note c = bfsLoop_correct[OF bfsInv_init, of "allCells st" goal start, folded b]
  show ?thesis
  proof (cases "bfsPath st start goal")
    case None
    with c show ?thesis by simp
  next
    case (Some path)
    with c have r: "route (allCells st) goal start goal path"
      and m: "\<And>tr. route (allCells st) goal start goal tr \<Longrightarrow> length path \<le> length tr"
      by simp_all
    have m': "hops path \<le> hops tr" if "route (allCells st) goal start goal tr" for tr
      using m[OF that] by (simp add: hops_def)
    have "shortestHops (allCells st) start goal = hops path"
      unfolding shortestHops_def
    proof (rule Least_equality)
      show "\<exists>tr. route (allCells st) goal start goal tr \<and> hops tr = hops path"
        using r by blast
      show "hops path \<le> n" if "\<exists>tr. route (allCells st) goal start goal tr \<and> hops tr = n" for n
        using that m' by blast
    qed
    with r m' Some show ?thesis by auto
  qed
qed

text \<open>
  The AI head on \<open>(2,2)\<close> and the goal on \<open>(2,4)\<close>: the route found is the
  straight one of 2 hops, the shortest hop count. An AI head in the corner
  \<open>(0,0)\<close> walled in by the player has no route, and the search returns
  \<open>None\<close>.
\<close>

theorem bfsPath_shortest_witness:
  "route (allCells (duelGame [(13,15),(12,15),(11,15)] [(2,2),(1,2),(0,2)])) (2,4) (2,2) (2,4)
      [(2,2),(2,3),(2,4)]
   \<and> bfsPath (duelGame [(13,15),(12,15),(11,15)] [(2,2),(1,2),(0,2)]) (2,2) (2,4)
       = Some [(2,2),(2,3),(2,4)]
   \<and> shortestHops (allCells (duelGame [(13,15),(12,15),(11,15)] [(2,2),(1,2),(0,2)])) (2,2) (2,4) = 2
   \<and> bfsPath (duelGame [(1,0),(1,1),(0,1)] [(0,0)]) (0,0) (5,5) = None"
proof -
  let ?st = "duelGame [(13,15),(12,15),(11,15)] [(2,2),(1,2),(0,2)]"
  have ac: "allCells ?st = {(13,15),(12,15),(11,15),(2,2),(1,2),(0,2)}"
    by (auto simp: allCells_def duelGame_def bodyCells_def makeSnake_def)
  have r: "route (allCells ?st) (2,4) (2,2) (2,4) [(2,2),(2,3),(2,4)]"
    unfolding ac
    by (simp add: route_def passable_def neighbors_def insideGrid_def GRID_def)
  have e: "bfsPath ?st (2,2) (2,4) = Some [(2,2),(2,3),(2,4)]"
    by (simp add: bfsPath_def ac[unfolded allCells_def] neighbors_def insideGrid_def GRID_def)
  let ?st2 = "duelGame [(1,0),(1,1),(0,1)] [(0,0)]"
  have ac2: "allCells ?st2 = {(1,0),(1,1),(0,1),(0,0)}"
    by (auto simp: allCells_def duelGame_def bodyCells_def makeSnake_def)
  have n: "bfsPath ?st2 (0,0) (5,5) = None"
    by (simp add: bfsPath_def ac2[unfolded allCells_def] neighbors_def insideGrid_def GRID_def)
  from bfsPath_shortest[of ?st "(2,4)" "(2,2)"] r e
  have "hops [(2,2),(2,3),(2,4::int)] = shortestHops (allCells ?st) (2,2) (2,4)"
    by auto
  then have "shortestHops (allCells ?st) (2,2) (2,4) = 2" by (simp add: hops_def)
  with r e n show ?thesis by (intro conjI)
qed

end
